theory Spec2Isabelle
  imports Main "HOL-Library.Word" "HOL-Library.Signed_Division"
begin

section \<open>The rosserial client node handle (ros\_lib/ros/node\_handle.cpp)\<close>

text \<open>
  A shallow embedding of \<^verbatim>\<open>ros::NodeHandle\<close>. The class is a record of its member
  variables; every member function is a function from the record to the updated record.
  Member names lose their trailing underscore (\<^verbatim>\<open>state_\<close> is \<open>state\<close>).

  The header \<^verbatim>\<open>node_handle.h\<close> and the collaborators (hardware port, frame writer,
  generated message codecs, time arithmetic) are not among the sources. The constants and
  codecs they declare are parameters (record \<open>Config\<close>); the member types are read off the
  way node\_handle.cpp uses them:
  \<^item> the target is the Arduino (\<^verbatim>\<open>WProgram.h\<close>, \<^verbatim>\<open>arduino_hardware.h\<close>):
    \<^verbatim>\<open>unsigned long\<close> (clock readings) is a 32-bit word and \<^verbatim>\<open>int\<close> has 16 bits;
  \<^item> the \<^verbatim>\<open>int\<close> members (\<^verbatim>\<open>topic_\<close>, \<^verbatim>\<open>remaining_data_bytes_\<close>, \<^verbatim>\<open>data_index_\<close>,
    \<^verbatim>\<open>checksum_\<close>, \<^verbatim>\<open>total_receivers_\<close>, the error counters that the getters return as
    \<^verbatim>\<open>int\<close>) are integers, and every value stored into one of them is wrapped to the
    16-bit two's-complement range (\<open>int16\<close>). Signed overflow is undefined in C++;
    the model takes the wrap-around that the target's compiler produces, which is also
    what the conversion of line 171 (\<^verbatim>\<open>+= static_cast<uint16_t>(input_byte) << 8\<close>)
    is defined to do. \<^verbatim>\<open>%\<close> is the truncating remainder \<open>smod\<close> of C++;
  \<^item> a byte delivered by the port is an 8-bit word, so \<^verbatim>\<open>input_byte\<close> is \<open>uint b\<close>, in
    \<open>[0, 255]\<close> as the port contract says; the negative "no data" result is \<open>None\<close>.
\<close>

subsection \<open>Data\<close>

type_synonym byte = "8 word"
type_synonym ulong = "32 word"

text \<open>The value an \<^verbatim>\<open>int\<close> member holds after \<open>x\<close> is stored into it.\<close>

definition int16 :: "int \<Rightarrow> int" where
  "int16 x = (x + 32768) mod 65536 - 32768"

datatype rx_state =
  STATE_FIRST_FF | STATE_SECOND_FF | STATE_TOPIC_LOW | STATE_TOPIC_HIGH
| STATE_SIZE_LOW | STATE_SIZE_HIGH | STATE_MESSAGE | STATE_CHECKSUM

record Time =
  sec :: nat
  nsec :: nat

datatype log_level = DEBUG | INFO | WARN | ERROR | FATAL

text \<open>The message values handed to \<^verbatim>\<open>node_output_.publish\<close>.\<close>

datatype message =
  TimeMsg Time
| TopicInfoMsg int string string
| LogMsg log_level string
| RequestParamRequestMsg string

text \<open>
  The hardware port behind \<^verbatim>\<open>hardware_\<close>: \<open>rx\<close> lists the results of the coming
  \<^verbatim>\<open>read()\<close> calls (\<open>None\<close> is the negative "no byte available"; an exhausted list
  answers \<open>None\<close> for ever), \<open>clock\<close> gives the result of the n-th \<^verbatim>\<open>time()\<close> call and
  \<open>ticks\<close> counts the calls made so far.
\<close>

record Hardware =
  rx :: "byte option list"
  clock :: "nat \<Rightarrow> ulong"
  ticks :: nat

text \<open>
  Publishers and receivers are application objects; the handle uses their id, topic name
  and message type, and a receiver's \<^verbatim>\<open>receive(data, length)\<close>, which reports success.
\<close>

record Publisher =
  getId :: int
  getTopicName :: string
  getMessageType :: string

record MsgReceiver = Publisher +
  receive :: "byte list \<Rightarrow> bool"

text \<open>
  \<^verbatim>\<open>rosserial_msgs::RequestParamResponse\<close>: each array member and its \<^verbatim>\<open>_length\<close>
  member are one list. A float is its 32-bit pattern.
\<close>

record RequestParamResponse =
  ints :: "int list"
  floats :: "32 word list"
  strings :: "string list"

definition ints_length :: "RequestParamResponse \<Rightarrow> int" where
  "ints_length r = int (length (ints r))"

definition floats_length :: "RequestParamResponse \<Rightarrow> int" where
  "floats_length r = int (length (floats r))"

definition strings_length :: "RequestParamResponse \<Rightarrow> int" where
  "strings_length r = int (length (strings r))"

text \<open>
  The constants of node\_handle.h and the generated decoders. A decoder gets the buffer
  and the length it may read and returns the \<^verbatim>\<open>deserialize\<close> result (negative on
  failure) with the decoded value; the parameter decoder updates the response object it
  is called on. \<open>kDefaultTimeOut\<close> is the default argument of \<^verbatim>\<open>requestParam\<close>.
\<close>

record Config =
  kInputSize :: nat
  kMaxBytesPerSpin :: nat
  kMaxSubscribers :: nat
  kMaxPublishers :: nat
  kConnectionTimeout :: ulong
  kSyncPeriod :: ulong
  kDefaultTimeOut :: int
  Time_deserialize :: "byte list \<Rightarrow> nat \<Rightarrow> int \<times> Time"
  RequestParamResponse_deserialize ::
    "byte list \<Rightarrow> nat \<Rightarrow> RequestParamResponse \<Rightarrow> int \<times> RequestParamResponse"

text \<open>
  The node handle. \<open>message_in\<close>, \<open>publishers\<close> and \<open>receivers\<close> are the member arrays,
  as maps from the index. \<open>node_output\<close> is the sequence of \<^verbatim>\<open>node_output_.publish\<close> calls
  made so far. The last three fields observe the run and are read by no operation:
  \<open>dispatched\<close> lists the frames that passed the checksum test (topic and payload),
  \<open>delivered\<close> the \<^verbatim>\<open>receive\<close> calls made on receivers (slot and payload), and
  \<open>buffer_writes\<close> the index of every store into \<open>message_in\<close>.
\<close>

record NodeHandle =
  hardware :: Hardware
  node_output :: "(int \<times> message) list"
  connected :: bool
  param_received :: bool
  time_sync_start :: ulong
  time_sync_end :: ulong
  sync_time :: Time
  state :: rx_state
  remaining_data_bytes :: int
  topic :: int
  data_index :: int
  checksum :: int
  message_in :: "int \<Rightarrow> byte"
  invalid_size_error_count :: int
  checksum_error_count :: int
  state_error_count :: int
  malformed_message_error_count :: int
  total_receivers :: int
  publishers :: "int \<Rightarrow> Publisher option"
  receivers :: "int \<Rightarrow> MsgReceiver option"
  req_param_resp :: RequestParamResponse
  dispatched :: "(int \<times> byte list) list"
  delivered :: "(int \<times> byte list) list"
  buffer_writes :: "int list"

subsection \<open>Reserved topic identifiers\<close>

text \<open>
  Modelled from the spec: rosserial\_ids.h and rosserial\_msgs/TopicInfo.h are not among
  the sources; the values are those of the table of reserved topic identifiers.
\<close>

definition TOPIC_NEGOTIATION :: int where "TOPIC_NEGOTIATION = 0"
definition TOPIC_PUBLISHERS :: int where "TOPIC_PUBLISHERS = 0"
definition TOPIC_SUBSCRIBERS :: int where "TOPIC_SUBSCRIBERS = 1"
definition ID_PARAMETER_REQUEST :: int where "ID_PARAMETER_REQUEST = 6"
definition ID_LOG :: int where "ID_LOG = 7"
definition ID_TIME :: int where "ID_TIME = 10"

subsection \<open>Collaborators\<close>

text \<open>\<^verbatim>\<open>hardware_->time()\<close> and \<^verbatim>\<open>hardware_->read()\<close>.\<close>

definition hw_time :: "NodeHandle \<Rightarrow> ulong \<times> NodeHandle" where
  "hw_time s =
     (let h = hardware s
      in (clock h (ticks h), s\<lparr>hardware := h\<lparr>ticks := Suc (ticks h)\<rparr>\<rparr>))"

definition hw_read :: "NodeHandle \<Rightarrow> byte option \<times> NodeHandle" where
  "hw_read s =
     (let h = hardware s
      in case rx h of
           [] \<Rightarrow> (None, s)
         | r # rest \<Rightarrow> (r, s\<lparr>hardware := h\<lparr>rx := rest\<rparr>\<rparr>))"

text \<open>
  Modelled from the spec: \<^verbatim>\<open>NodeOutput::publish\<close> (the frame writer) is not among the
  sources. A call is recorded as the pair of topic identifier and message, in call order.
\<close>

definition publish :: "int \<Rightarrow> message \<Rightarrow> NodeHandle \<Rightarrow> NodeHandle" where
  "publish topic_id msg s = s\<lparr>node_output := node_output s @ [(topic_id, msg)]\<rparr>"

text \<open>
  Modelled from the spec: \<^verbatim>\<open>Duration::fromMillis\<close> and \<^verbatim>\<open>Time::operator+=\<close> (ros/time.h,
  ros/duration.h) are not among the sources. Duration addition obeys
  \<^verbatim>\<open>nsec += offset_ms * 1000000; sec += nsec / 1000000000; nsec %= 1000000000\<close>.
\<close>

definition add_millis :: "Time \<Rightarrow> nat \<Rightarrow> Time" where
  "add_millis t offset_ms =
     (let n = nsec t + offset_ms * 1000000
      in \<lparr>sec = sec t + n div 1000000000, nsec = n mod 1000000000\<rparr>)"

text \<open>The decimal digits \<^verbatim>\<open>%lu\<close> prints.\<close>

fun decimal :: "nat \<Rightarrow> string" where
  "decimal n =
     (if n < 10 then [char_of (48 + n)]
      else decimal (n div 10) @ [char_of (48 + n mod 10)])"

declare decimal.simps [simp del]

subsection \<open>Construction\<close>

text \<open>
  The constructor's initialiser list. \<open>raw\<close> is the storage the object is built in: a
  member that the list does not name keeps what the storage held (zero for an object of
  static storage duration, anything for an automatic or heap object).
\<close>

definition NodeHandle_ctor :: "Hardware \<Rightarrow> NodeHandle \<Rightarrow> NodeHandle" where
  "NodeHandle_ctor hw raw =
     raw\<lparr>hardware := hw,
         node_output := [],
         connected := False,
         param_received := False,
         time_sync_start := 0,
         time_sync_end := 0,
         state := STATE_FIRST_FF,
         remaining_data_bytes := 0,
         topic := 0,
         data_index := 0,
         checksum := 0,
         invalid_size_error_count := 0,
         checksum_error_count := 0,
         malformed_message_error_count := 0,
         total_receivers := 0,
         dispatched := [],
         delivered := [],
         buffer_writes := []\<rparr>"

subsection \<open>Logging\<close>

definition log :: "log_level \<Rightarrow> string \<Rightarrow> NodeHandle \<Rightarrow> NodeHandle" where
  "log level msg s = publish ID_LOG (LogMsg level msg) s"

definition logdebug :: "string \<Rightarrow> NodeHandle \<Rightarrow> NodeHandle" where
  "logdebug msg s = log DEBUG msg s"

definition loginfo :: "string \<Rightarrow> NodeHandle \<Rightarrow> NodeHandle" where
  "loginfo msg s = log INFO msg s"

definition logwarn :: "string \<Rightarrow> NodeHandle \<Rightarrow> NodeHandle" where
  "logwarn msg s = log WARN msg s"

definition logerror :: "string \<Rightarrow> NodeHandle \<Rightarrow> NodeHandle" where
  "logerror msg s = log ERROR msg s"

definition logfatal :: "string \<Rightarrow> NodeHandle \<Rightarrow> NodeHandle" where
  "logfatal msg s = log FATAL msg s"

subsection \<open>Registry\<close>

definition registerReceiver :: "Config \<Rightarrow> MsgReceiver \<Rightarrow> NodeHandle \<Rightarrow> bool \<times> NodeHandle" where
  "registerReceiver cfg receiver s =
     (if total_receivers s \<ge> int (kMaxSubscribers cfg) then (False, s)
      else
        (True,
         s\<lparr>receivers :=
             (receivers s)(total_receivers s \<mapsto>
                receiver\<lparr>getId := int16 (100 + total_receivers s)\<rparr>),
           total_receivers := int16 (total_receivers s + 1)\<rparr>))"

function advertise_loop :: "Config \<Rightarrow> Publisher \<Rightarrow> int \<Rightarrow> NodeHandle \<Rightarrow> bool \<times> NodeHandle" where
  "advertise_loop cfg publisher i s =
     (if i < int (kMaxPublishers cfg) then
        (if publishers s i = None then
           (True,
            s\<lparr>publishers :=
                (publishers s)(i \<mapsto>
                   publisher\<lparr>getId := int16 (i + 100 + int (kMaxSubscribers cfg))\<rparr>)\<rparr>)
         else advertise_loop cfg publisher (i + 1) s)
      else (False, s))"
  by pat_completeness auto
termination
  by (relation "measure (\<lambda>(cfg, p, i, s). nat (int (kMaxPublishers cfg) - i))") auto

declare advertise_loop.simps [simp del]

definition advertise :: "Config \<Rightarrow> Publisher \<Rightarrow> NodeHandle \<Rightarrow> bool \<times> NodeHandle" where
  "advertise cfg publisher s = advertise_loop cfg publisher 0 s"

subsection \<open>Receive state machine and time synchronisation\<close>

definition reset :: "NodeHandle \<Rightarrow> NodeHandle" where
  "reset s =
     s\<lparr>state := STATE_FIRST_FF,
       remaining_data_bytes := 0,
       topic := 0,
       data_index := 0,
       checksum := 0\<rparr>"

text \<open>
  The message published by \<^verbatim>\<open>requestTimeSync\<close> is a default-constructed
  \<^verbatim>\<open>std_msgs::Time\<close>, the empty time message.
\<close>

definition requestTimeSync :: "NodeHandle \<Rightarrow> NodeHandle" where
  "requestTimeSync s =
     (if time_sync_start s > 0 then s
      else
        (let (t, s1) = hw_time s;
             s2 = s1\<lparr>time_sync_start := t\<rparr>
         in publish ID_TIME (TimeMsg \<lparr>sec = 0, nsec = 0\<rparr>) s2))"

definition completeTimeSync :: "Config \<Rightarrow> byte list \<Rightarrow> NodeHandle \<Rightarrow> NodeHandle" where
  "completeTimeSync cfg data s =
     (let (t, s1) = hw_time s;
          s2 = s1\<lparr>time_sync_end := t\<rparr>;
          offset = (time_sync_end s2 - time_sync_start s2) div 2;
          (r, time_data) = Time_deserialize cfg data (kInputSize cfg)
      in if r < 0 then s2
         else
           (let s3 = s2\<lparr>sync_time := time_data\<rparr>;
                s4 = s3\<lparr>sync_time := add_millis (sync_time s3) (unat offset)\<rparr>;
                s5 = s4\<lparr>time_sync_start := 0\<rparr>;
                msg = take 39 (''Time: '' @ decimal (sec (sync_time s5)) @ '' ''
                                 @ decimal (nsec (sync_time s5)))
            in logdebug msg s5))"

definition now :: "NodeHandle \<Rightarrow> Time \<times> NodeHandle" where
  "now s =
     (let (t, s1) = hw_time s;
          offset = t - time_sync_end s1
      in (add_millis (sync_time s1) (unat offset), s1))"

function negotiate_publishers :: "Config \<Rightarrow> int \<Rightarrow> NodeHandle \<Rightarrow> NodeHandle" where
  "negotiate_publishers cfg i s =
     (if i < int (kMaxPublishers cfg) then
        (case publishers s i of
           None \<Rightarrow> s
         | Some p \<Rightarrow>
             negotiate_publishers cfg (i + 1)
               (publish TOPIC_PUBLISHERS
                  (TopicInfoMsg (getId p) (getTopicName p) (getMessageType p)) s))
      else s)"
  by pat_completeness auto
termination
  by (relation "measure (\<lambda>(cfg, i, s). nat (int (kMaxPublishers cfg) - i))") auto

declare negotiate_publishers.simps [simp del]

function negotiate_receivers :: "Config \<Rightarrow> int \<Rightarrow> NodeHandle \<Rightarrow> NodeHandle" where
  "negotiate_receivers cfg i s =
     (if i < int (kMaxSubscribers cfg) then
        (case receivers s i of
           None \<Rightarrow> s
         | Some r \<Rightarrow>
             negotiate_receivers cfg (i + 1)
               (publish TOPIC_SUBSCRIBERS
                  (TopicInfoMsg (getId r) (getTopicName r) (getMessageType r)) s))
      else s)"
  by pat_completeness auto
termination
  by (relation "measure (\<lambda>(cfg, i, s). nat (int (kMaxSubscribers cfg) - i))") auto

declare negotiate_receivers.simps [simp del]

definition negotiateTopics :: "Config \<Rightarrow> NodeHandle \<Rightarrow> NodeHandle" where
  "negotiateTopics cfg s = negotiate_receivers cfg 0 (negotiate_publishers cfg 0 s)"

text \<open>
  What a decoder called on \<^verbatim>\<open>(message_in, kInputSize)\<close> may read, and what a receiver
  called on \<^verbatim>\<open>(message_in, data_index_)\<close> is given.
\<close>

definition buffer_prefix :: "NodeHandle \<Rightarrow> nat \<Rightarrow> byte list" where
  "buffer_prefix s n = map (\<lambda>i. message_in s (int i)) [0..<n]"

text \<open>
  The body of \<^verbatim>\<open>if ((checksum_ % 256) == 255)\<close> in \<^verbatim>\<open>STATE_CHECKSUM\<close>: the chain over
  \<^verbatim>\<open>topic_\<close>.
\<close>

definition dispatch :: "Config \<Rightarrow> NodeHandle \<Rightarrow> NodeHandle" where
  "dispatch cfg s =
     (if topic s = TOPIC_NEGOTIATION then negotiateTopics cfg (requestTimeSync s)
      else if topic s = ID_TIME then
        (completeTimeSync cfg (buffer_prefix s (kInputSize cfg)) s)\<lparr>connected := True\<rparr>
      else if topic s = ID_PARAMETER_REQUEST then
        (let (r, resp) =
               RequestParamResponse_deserialize cfg (buffer_prefix s (kInputSize cfg))
                 (kInputSize cfg) (req_param_resp s);
             s1 = s\<lparr>req_param_resp := resp\<rparr>
         in if r \<ge> 0 then s1\<lparr>param_received := True\<rparr> else s1)
      else
        (case (if topic s \<ge> 100 \<and> topic s - 100 < int (kMaxSubscribers cfg)
               then receivers s (topic s - 100) else None) of
           Some r \<Rightarrow>
             (let payload = buffer_prefix s (nat (data_index s));
                  success = receive r payload;
                  s1 = s\<lparr>delivered := delivered s @ [(topic s - 100, payload)]\<rparr>
              in if \<not> success
                 then s1\<lparr>malformed_message_error_count :=
                           int16 (malformed_message_error_count s1 + 1)\<rparr>
                 else s1)
         | None \<Rightarrow> s\<lparr>checksum_error_count := int16 (checksum_error_count s + 1)\<rparr>))"

text \<open>
  The body of the read loop of \<^verbatim>\<open>spinOnce\<close> for one byte \<open>b\<close> that \<^verbatim>\<open>read()\<close> returned:
  the receive state machine.
\<close>

definition process_byte :: "Config \<Rightarrow> byte \<Rightarrow> NodeHandle \<Rightarrow> NodeHandle" where
  "process_byte cfg b s0 =
     (let input_byte = uint b;
          s = s0\<lparr>checksum := int16 (checksum s0 + input_byte)\<rparr>
      in case state s of
           STATE_FIRST_FF \<Rightarrow>
             (if input_byte = 0xff then s\<lparr>state := STATE_SECOND_FF\<rparr>
              else reset (s\<lparr>state_error_count := int16 (state_error_count s + 1)\<rparr>))
         | STATE_SECOND_FF \<Rightarrow>
             (if input_byte = 0xff then s\<lparr>state := STATE_TOPIC_LOW\<rparr>
              else reset (s\<lparr>state_error_count := int16 (state_error_count s + 1)\<rparr>))
         | STATE_TOPIC_LOW \<Rightarrow>
             s\<lparr>checksum := input_byte, topic := input_byte, state := STATE_TOPIC_HIGH\<rparr>
         | STATE_TOPIC_HIGH \<Rightarrow>
             s\<lparr>topic := int16 (topic s + push_bit 8 input_byte), state := STATE_SIZE_LOW\<rparr>
         | STATE_SIZE_LOW \<Rightarrow>
             s\<lparr>remaining_data_bytes := input_byte, state := STATE_SIZE_HIGH\<rparr>
         | STATE_SIZE_HIGH \<Rightarrow>
             (let s1 = s\<lparr>remaining_data_bytes :=
                           int16 (remaining_data_bytes s + push_bit 8 input_byte)\<rparr>
              in if remaining_data_bytes s1 = 0 then s1\<lparr>state := STATE_CHECKSUM\<rparr>
                 else if remaining_data_bytes s1 \<le> int (kInputSize cfg)
                 then s1\<lparr>state := STATE_MESSAGE\<rparr>
                 else (let s2 = reset s1
                       in s2\<lparr>invalid_size_error_count :=
                              int16 (invalid_size_error_count s2 + 1)\<rparr>))
         | STATE_MESSAGE \<Rightarrow>
             (let s1 = s\<lparr>message_in := (message_in s)(data_index s := b),
                         buffer_writes := buffer_writes s @ [data_index s],
                         data_index := int16 (data_index s + 1)\<rparr>;
                  s2 = s1\<lparr>remaining_data_bytes := int16 (remaining_data_bytes s1 - 1)\<rparr>
              in if remaining_data_bytes s2 = 0 then s2\<lparr>state := STATE_CHECKSUM\<rparr> else s2)
         | STATE_CHECKSUM \<Rightarrow>
             reset
               (if checksum s smod 256 = 255
                then dispatch cfg
                       (s\<lparr>dispatched :=
                            dispatched s @ [(topic s, buffer_prefix s (nat (data_index s)))]\<rparr>)
                else s))"

text \<open>Feeding a byte sequence to the receive state machine, one byte at a time.\<close>

fun feed :: "Config \<Rightarrow> byte list \<Rightarrow> NodeHandle \<Rightarrow> NodeHandle" where
  "feed cfg [] s = s"
| "feed cfg (b # bs) s = feed cfg bs (process_byte cfg b s)"

subsection \<open>spinOnce\<close>

function read_loop :: "Config \<Rightarrow> nat \<Rightarrow> NodeHandle \<Rightarrow> nat \<times> NodeHandle" where
  "read_loop cfg byte_count s =
     (if byte_count < kMaxBytesPerSpin cfg then
        (case hw_read s of
           (None, s1) \<Rightarrow> (byte_count, s1)
         | (Some b, s1) \<Rightarrow> read_loop cfg (byte_count + 1) (process_byte cfg b s1))
      else (byte_count, s))"
  by pat_completeness auto
termination
  by (relation "measure (\<lambda>(cfg, n, s). kMaxBytesPerSpin cfg - n)") auto

declare read_loop.simps [simp del]

text \<open>
  The block \<^verbatim>\<open>if (connected_) { ... }\<close> at the head of \<^verbatim>\<open>spinOnce\<close>: two consecutive
  \<^verbatim>\<open>if\<close> statements, the connection timeout and the periodic time sync.
\<close>

definition check_connection :: "Config \<Rightarrow> ulong \<Rightarrow> NodeHandle \<Rightarrow> NodeHandle" where
  "check_connection cfg current_time s =
     (if connected s then
        (let s1 =
               (if current_time - time_sync_end s > kConnectionTimeout cfg
                then reset (s\<lparr>connected := False, time_sync_start := 0\<rparr>)
                else s);
             s2 =
               (if current_time - time_sync_end s1 > kSyncPeriod cfg
                then requestTimeSync s1
                else s1)
         in s2)
      else s)"

definition spinOnce :: "Config \<Rightarrow> NodeHandle \<Rightarrow> nat \<times> NodeHandle" where
  "spinOnce cfg s0 =
     (let (current_time, s) = hw_time s0
      in read_loop cfg 0 (check_connection cfg current_time s))"

subsection \<open>Parameter fetch\<close>

text \<open>
  The loop of \<^verbatim>\<open>requestParam\<close> spins until the response arrives or the clock passes the
  time-out; it need not end (a clock that stands still, no response), so it is a partial
  function and \<open>None\<close> is "does not return". \<^verbatim>\<open>time_out\<close> is an \<^verbatim>\<open>int\<close> that the
  comparison converts to \<^verbatim>\<open>unsigned long\<close>.
\<close>

partial_function (option) requestParam_loop ::
  "Config \<Rightarrow> ulong \<Rightarrow> int \<Rightarrow> NodeHandle \<Rightarrow> (bool \<times> NodeHandle) option" where
  "requestParam_loop cfg start_time time_out s =
     (if \<not> param_received s then
        (case hw_time (snd (spinOnce cfg s)) of
           (t, s2) \<Rightarrow>
             if t - start_time > word_of_int time_out then Some (False, s2)
             else requestParam_loop cfg start_time time_out s2)
      else Some (True, s))"

definition requestParam ::
  "Config \<Rightarrow> string \<Rightarrow> int \<Rightarrow> NodeHandle \<Rightarrow> (bool \<times> NodeHandle) option" where
  "requestParam cfg name time_out s =
     (let s1 = s\<lparr>param_received := False\<rparr>;
          s2 = publish ID_PARAMETER_REQUEST (RequestParamRequestMsg name) s1;
          (start_time, s3) = hw_time s2
      in requestParam_loop cfg start_time time_out s3)"

text \<open>
  The copy loop of the three \<^verbatim>\<open>getParam\<close> overloads,
  \<^verbatim>\<open>for (int i = 0; i < length; i++) param[i] = src[i];\<close> (\<^verbatim>\<open>strcpy\<close> for strings,
  which leaves the source string in the caller's slot). The caller's array is a list;
  an index outside either array is undefined behaviour in C++ and is excluded where the
  loop is used in a theorem.
\<close>

function copy_loop :: "int \<Rightarrow> int \<Rightarrow> 'a list \<Rightarrow> 'a list \<Rightarrow> 'a list" where
  "copy_loop i len src param =
     (if i < len then copy_loop (i + 1) len src (param[nat i := src ! nat i])
      else param)"
  by pat_completeness auto
termination
  by (relation "measure (\<lambda>(i, len, src, param). nat (len - i))") auto

declare copy_loop.simps [simp del]

text \<open>
  A getter returns its result, the caller's array as it leaves it, and the handle;
  \<open>None\<close> when \<^verbatim>\<open>requestParam\<close> does not return.
\<close>

definition getParam_int ::
  "Config \<Rightarrow> string \<Rightarrow> int list \<Rightarrow> int \<Rightarrow> NodeHandle
    \<Rightarrow> (bool \<times> int list \<times> NodeHandle) option" where
  "getParam_int cfg name param len s =
     (case requestParam cfg name (kDefaultTimeOut cfg) s of
        None \<Rightarrow> None
      | Some (ok, s1) \<Rightarrow>
          if ok \<and> len = ints_length (req_param_resp s1)
          then Some (True, copy_loop 0 len (ints (req_param_resp s1)) param, s1)
          else Some (False, param, s1))"

definition getParam_float ::
  "Config \<Rightarrow> string \<Rightarrow> 32 word list \<Rightarrow> int \<Rightarrow> NodeHandle
    \<Rightarrow> (bool \<times> 32 word list \<times> NodeHandle) option" where
  "getParam_float cfg name param len s =
     (case requestParam cfg name (kDefaultTimeOut cfg) s of
        None \<Rightarrow> None
      | Some (ok, s1) \<Rightarrow>
          if ok \<and> len = floats_length (req_param_resp s1)
          then Some (True, copy_loop 0 len (floats (req_param_resp s1)) param, s1)
          else Some (False, param, s1))"

definition getParam_string ::
  "Config \<Rightarrow> string \<Rightarrow> string list \<Rightarrow> int \<Rightarrow> NodeHandle
    \<Rightarrow> (bool \<times> string list \<times> NodeHandle) option" where
  "getParam_string cfg name param len s =
     (case requestParam cfg name (kDefaultTimeOut cfg) s of
        None \<Rightarrow> None
      | Some (ok, s1) \<Rightarrow>
          if ok \<and> len = strings_length (req_param_resp s1)
          then Some (True, copy_loop 0 len (strings (req_param_resp s1)) param, s1)
          else Some (False, param, s1))"

subsection \<open>Frames on the wire\<close>

text \<open>
  Modelled from the spec: the frame writer is not among the sources. A frame is
  \<^verbatim>\<open>0xFF, 0xFF, topic_id & 0xFF, topic_id >> 8, length & 0xFF, length >> 8\<close>, the payload,
  and the checksum \<^verbatim>\<open>255 - ((topic_lo + topic_hi + size_lo + size_hi + sum of payload) mod 256)\<close>.
\<close>

definition frame_checksum :: "nat \<Rightarrow> byte list \<Rightarrow> nat" where
  "frame_checksum topic_id payload =
     255 - (topic_id mod 256 + topic_id div 256 + length payload mod 256
            + length payload div 256 + sum_list (map unat payload)) mod 256"

text \<open>The sum of the bytes of a frame from the low topic byte to the checksum byte.\<close>

definition frame_sum :: "nat \<Rightarrow> byte list \<Rightarrow> nat" where
  "frame_sum topic_id payload =
     topic_id mod 256 + topic_id div 256 + length payload mod 256
     + length payload div 256 + sum_list (map unat payload)
     + frame_checksum topic_id payload"

definition frame :: "nat \<Rightarrow> byte list \<Rightarrow> byte list" where
  "frame topic_id payload =
     [0xFF, 0xFF, of_nat (topic_id mod 256), of_nat (topic_id div 256),
      of_nat (length payload mod 256), of_nat (length payload div 256)]
     @ payload @ [of_nat (frame_checksum topic_id payload)]"

subsection \<open>Vocabulary of the statements\<close>

text \<open>
  The occupied slots of a registry table up to its first empty slot, and the topic-info
  record \<^verbatim>\<open>{topic_id, topic_name, message_type}\<close> of an entry.
\<close>

fun occupied :: "'a option list \<Rightarrow> 'a list" where
  "occupied [] = []"
| "occupied (None # rest) = []"
| "occupied (Some x # rest) = x # occupied rest"

definition slots :: "(int \<Rightarrow> 'a option) \<Rightarrow> nat \<Rightarrow> nat \<Rightarrow> 'a option list" where
  "slots table i n = map (\<lambda>k. table (int k)) [i..<n]"

definition topic_info :: "'a Publisher_scheme \<Rightarrow> message" where
  "topic_info p = TopicInfoMsg (getId p) (getTopicName p) (getMessageType p)"

definition empty_time :: message where
  "empty_time = TimeMsg \<lparr>sec = 0, nsec = 0\<rparr>"

text \<open>
  The invariant of the receive state machine: before \<^verbatim>\<open>STATE_MESSAGE\<close> nothing is
  stored yet.
\<close>

definition rx_inv :: "NodeHandle \<Rightarrow> bool" where
  "rx_inv s =
     (case state s of
        STATE_MESSAGE \<Rightarrow> True
      | STATE_CHECKSUM \<Rightarrow> True
      | _ \<Rightarrow> data_index s = 0)"

text \<open>
  The number of bytes the port delivers before it first reports that none is available.
\<close>

definition available :: "Hardware \<Rightarrow> nat" where
  "available h = length (takeWhile (\<lambda>r. r \<noteq> None) (rx h))"

text \<open>The handle \<open>s\<close> with \<open>r\<close> as the coming reads of its port.\<close>

definition with_rx :: "byte option list \<Rightarrow> NodeHandle \<Rightarrow> NodeHandle" where
  "with_rx r s = s\<lparr>hardware := (hardware s)\<lparr>rx := r\<rparr>\<rparr>"

text \<open>The four error counters of \<open>s'\<close> are not below those of \<open>s\<close>.\<close>

definition counters_le :: "NodeHandle \<Rightarrow> NodeHandle \<Rightarrow> bool" where
  "counters_le s s' \<longleftrightarrow>
     invalid_size_error_count s \<le> invalid_size_error_count s'
     \<and> checksum_error_count s \<le> checksum_error_count s'
     \<and> state_error_count s \<le> state_error_count s'
     \<and> malformed_message_error_count s \<le> malformed_message_error_count s'"

subsection \<open>Concrete instances\<close>

text \<open>
  The values at which the theorems are instantiated. \<open>zero_storage\<close> is the storage of
  an object of static storage duration before its constructor runs, as the global
  \<^verbatim>\<open>ros::NodeHandle nh(&hardware)\<close> of the time test; \<open>stack_storage\<close> is storage
  that held other data before. \<open>port_at t rs\<close> is a port whose clock reads \<open>t\<close> and
  advances by ten milliseconds per reading, and whose coming reads are \<open>rs\<close>.
\<close>

definition zero_storage :: NodeHandle where
  "zero_storage =
     \<lparr>hardware = \<lparr>rx = [], clock = (\<lambda>n. 0), ticks = 0\<rparr>,
      node_output = [], connected = False, param_received = False,
      time_sync_start = 0, time_sync_end = 0, sync_time = \<lparr>sec = 0, nsec = 0\<rparr>,
      state = STATE_FIRST_FF, remaining_data_bytes = 0, topic = 0, data_index = 0,
      checksum = 0, message_in = (\<lambda>i. 0),
      invalid_size_error_count = 0, checksum_error_count = 0, state_error_count = 0,
      malformed_message_error_count = 0, total_receivers = 0,
      publishers = (\<lambda>i. None), receivers = (\<lambda>i. None),
      req_param_resp = \<lparr>ints = [], floats = [], strings = []\<rparr>,
      dispatched = [], delivered = [], buffer_writes = []\<rparr>"

definition stack_storage :: NodeHandle where
  "stack_storage = zero_storage\<lparr>state_error_count := - 1\<rparr>"

definition port_at :: "ulong \<Rightarrow> byte option list \<Rightarrow> Hardware" where
  "port_at t rs = \<lparr>rx = rs, clock = (\<lambda>n. t + 10 * of_nat n), ticks = 0\<rparr>"

text \<open>
  Sample decoders, standing in for the generated ones: a time message is two
  little-endian 32-bit numbers and cannot be read from fewer than eight bytes; a
  parameter response is a count followed by that many one-byte integers.
\<close>

definition le32 :: "byte list \<Rightarrow> nat" where
  "le32 bs = foldr (\<lambda>b acc. unat b + 256 * acc) (take 4 bs) 0"

definition sample_Time_deserialize :: "byte list \<Rightarrow> nat \<Rightarrow> int \<times> Time" where
  "sample_Time_deserialize data len =
     (if len < 8 \<or> length data < 8 then (- 1, \<lparr>sec = 0, nsec = 0\<rparr>)
      else (8, \<lparr>sec = le32 data, nsec = le32 (drop 4 data)\<rparr>))"

definition sample_Response_deserialize ::
  "byte list \<Rightarrow> nat \<Rightarrow> RequestParamResponse \<Rightarrow> int \<times> RequestParamResponse" where
  "sample_Response_deserialize data len resp =
     (case data of
        [] \<Rightarrow> (- 1, resp)
      | n # rest \<Rightarrow>
          if len < 1 + unat n \<or> length rest < unat n then (- 1, resp)
          else (1 + int (unat n),
                \<lparr>ints = map uint (take (unat n) rest), floats = [], strings = []\<rparr>))"

definition sample_config :: Config where
  "sample_config =
     \<lparr>kInputSize = 16, kMaxBytesPerSpin = 8, kMaxSubscribers = 2, kMaxPublishers = 2,
      kConnectionTimeout = 15000, kSyncPeriod = 5000, kDefaultTimeOut = 1000,
      Time_deserialize = sample_Time_deserialize,
      RequestParamResponse_deserialize = sample_Response_deserialize\<rparr>"

text \<open>The same configuration with a four-byte and with a 512-byte receive buffer.\<close>

definition small_config :: Config where
  "small_config = sample_config\<lparr>kInputSize := 4\<rparr>"


text \<open>A freshly constructed handle on a port with the given clock and reads.\<close>

definition fresh :: "ulong \<Rightarrow> byte option list \<Rightarrow> NodeHandle" where
  "fresh t rs = NodeHandle_ctor (port_at t rs) zero_storage"

text \<open>
  A publisher and a subscriber, and the handle after \<^verbatim>\<open>advertise\<close> and
  \<^verbatim>\<open>registerReceiver\<close> of the two. The subscriber accepts one-byte payloads.
\<close>

definition foo_publisher :: Publisher where
  "foo_publisher = \<lparr>getId = 0, getTopicName = ''/foo'', getMessageType = ''std_msgs/Int32''\<rparr>"

definition bar_subscriber :: MsgReceiver where
  "bar_subscriber =
     \<lparr>getId = 0, getTopicName = ''/bar'', getMessageType = ''std_msgs/Float32'',
      receive = (\<lambda>payload. length payload = 1)\<rparr>"

definition registered :: "ulong \<Rightarrow> byte option list \<Rightarrow> NodeHandle" where
  "registered t rs =
     snd (registerReceiver sample_config bar_subscriber
            (snd (advertise sample_config foo_publisher (fresh t rs))))"

text \<open>A handle whose last time sync completed at local time 0.\<close>

definition synced :: "ulong \<Rightarrow> byte option list \<Rightarrow> NodeHandle" where
  "synced t rs = (fresh t rs)\<lparr>connected := True\<rparr>"

section \<open>Basic facts\<close>

lemmas topic_ids =
  TOPIC_NEGOTIATION_def TOPIC_PUBLISHERS_def TOPIC_SUBSCRIBERS_def
  ID_PARAMETER_REQUEST_def ID_LOG_def ID_TIME_def

lemma requestTimeSync_eq:
  "requestTimeSync s =
     (if time_sync_start s > 0 then s
      else s\<lparr>hardware := (hardware s)\<lparr>ticks := Suc (ticks (hardware s))\<rparr>,
             time_sync_start := clock (hardware s) (ticks (hardware s)),
             node_output := node_output s @ [(ID_TIME, empty_time)]\<rparr>)"
  by (simp add: requestTimeSync_def hw_time_def publish_def Let_def empty_time_def)

lemma negotiate_publishers_eq:
  "negotiate_publishers cfg (int i) s =
     s\<lparr>node_output := node_output s
          @ map (\<lambda>p. (TOPIC_PUBLISHERS, topic_info p))
              (occupied (slots (publishers s) i (kMaxPublishers cfg)))\<rparr>"
proof (induction "kMaxPublishers cfg - i" arbitrary: i s)
  case 0
  then show ?case
    by (subst negotiate_publishers.simps) (simp add: slots_def)
next
  case (Suc n)
  then have lt: "i < kMaxPublishers cfg" by simp
  have IH: "negotiate_publishers cfg (int i + 1) s' =
     s'\<lparr>node_output := node_output s'
          @ map (\<lambda>p. (TOPIC_PUBLISHERS, topic_info p))
              (occupied (slots (publishers s') (Suc i) (kMaxPublishers cfg)))\<rparr>" for s'
  proof -
    have "n = kMaxPublishers cfg - Suc i" using Suc.hyps(2) by simp
    from Suc.hyps(1) [OF this, of s'] show ?thesis by (simp add: add.commute)
  qed
  have sl: "slots (publishers s) i (kMaxPublishers cfg) =
        publishers s (int i) # slots (publishers s) (Suc i) (kMaxPublishers cfg)"
    using lt by (simp add: slots_def upt_conv_Cons)
  show ?case
    apply (subst negotiate_publishers.simps)
    apply (simp only: IH sl)
    using lt apply (simp add: publish_def topic_info_def split: option.splits)
    done
qed

lemma negotiate_receivers_eq:
  "negotiate_receivers cfg (int i) s =
     s\<lparr>node_output := node_output s
          @ map (\<lambda>p. (TOPIC_SUBSCRIBERS, topic_info p))
              (occupied (slots (receivers s) i (kMaxSubscribers cfg)))\<rparr>"
proof (induction "kMaxSubscribers cfg - i" arbitrary: i s)
  case 0
  then show ?case
    by (subst negotiate_receivers.simps) (simp add: slots_def)
next
  case (Suc n)
  then have lt: "i < kMaxSubscribers cfg" by simp
  have IH: "negotiate_receivers cfg (int i + 1) s' =
     s'\<lparr>node_output := node_output s'
          @ map (\<lambda>p. (TOPIC_SUBSCRIBERS, topic_info p))
              (occupied (slots (receivers s') (Suc i) (kMaxSubscribers cfg)))\<rparr>" for s'
  proof -
    have "n = kMaxSubscribers cfg - Suc i" using Suc.hyps(2) by simp
    from Suc.hyps(1) [OF this, of s'] show ?thesis by (simp add: add.commute)
  qed
  have sl: "slots (receivers s) i (kMaxSubscribers cfg) =
        receivers s (int i) # slots (receivers s) (Suc i) (kMaxSubscribers cfg)"
    using lt by (simp add: slots_def upt_conv_Cons)
  show ?case
    apply (subst negotiate_receivers.simps)
    apply (simp only: IH sl)
    using lt apply (simp add: publish_def topic_info_def split: option.splits)
    done
qed

lemma negotiateTopics_eq:
  "negotiateTopics cfg s =
     s\<lparr>node_output := node_output s
          @ map (\<lambda>p. (TOPIC_PUBLISHERS, topic_info p))
              (occupied (slots (publishers s) 0 (kMaxPublishers cfg)))
          @ map (\<lambda>r. (TOPIC_SUBSCRIBERS, topic_info r))
              (occupied (slots (receivers s) 0 (kMaxSubscribers cfg)))\<rparr>"
  using negotiate_publishers_eq [of cfg 0 s]
    negotiate_receivers_eq [of cfg 0 "negotiate_publishers cfg 0 s"]
  by (simp add: negotiateTopics_def)


lemma completeTimeSync_eq:
  "completeTimeSync cfg data s =
     (let t = clock (hardware s) (ticks (hardware s));
          s2 = s\<lparr>hardware := (hardware s)\<lparr>ticks := Suc (ticks (hardware s))\<rparr>,
                 time_sync_end := t\<rparr>;
          decoded = Time_deserialize cfg data (kInputSize cfg);
          synced = add_millis (snd decoded) (unat ((t - time_sync_start s) div 2))
      in if fst decoded < 0 then s2
         else s2\<lparr>sync_time := synced,
                 time_sync_start := 0,
                 node_output := node_output s
                   @ [(ID_LOG, LogMsg DEBUG
                        (take 39 (''Time: '' @ decimal (sec synced) @ '' ''
                                   @ decimal (nsec synced))))]\<rparr>)"
  by (simp add: completeTimeSync_def hw_time_def Let_def logdebug_def log_def publish_def
      split: prod.splits)

lemma dispatch_state [simp]: "state (dispatch cfg s) = state s"
  by (simp add: dispatch_def negotiateTopics_eq requestTimeSync_eq completeTimeSync_eq Let_def
      split: prod.splits option.splits)

lemma dispatch_data_index [simp]: "data_index (dispatch cfg s) = data_index s"
  by (simp add: dispatch_def negotiateTopics_eq requestTimeSync_eq completeTimeSync_eq Let_def
      split: prod.splits option.splits)

lemma dispatch_remaining [simp]: "remaining_data_bytes (dispatch cfg s) = remaining_data_bytes s"
  by (simp add: dispatch_def negotiateTopics_eq requestTimeSync_eq completeTimeSync_eq Let_def
      split: prod.splits option.splits)

lemma dispatch_message_in [simp]: "message_in (dispatch cfg s) = message_in s"
  by (simp add: dispatch_def negotiateTopics_eq requestTimeSync_eq completeTimeSync_eq Let_def
      split: prod.splits option.splits)

lemma dispatch_buffer_writes [simp]: "buffer_writes (dispatch cfg s) = buffer_writes s"
  by (simp add: dispatch_def negotiateTopics_eq requestTimeSync_eq completeTimeSync_eq Let_def
      split: prod.splits option.splits)

lemma dispatch_dispatched [simp]: "dispatched (dispatch cfg s) = dispatched s"
  by (simp add: dispatch_def negotiateTopics_eq requestTimeSync_eq completeTimeSync_eq Let_def
      split: prod.splits option.splits)

lemma dispatch_rx [simp]: "rx (hardware (dispatch cfg s)) = rx (hardware s)"
  by (simp add: dispatch_def negotiateTopics_eq requestTimeSync_eq completeTimeSync_eq Let_def
      split: prod.splits option.splits)

lemma dispatch_publishers [simp]: "publishers (dispatch cfg s) = publishers s"
  by (simp add: dispatch_def negotiateTopics_eq requestTimeSync_eq completeTimeSync_eq Let_def
      split: prod.splits option.splits)

lemma dispatch_receivers [simp]: "receivers (dispatch cfg s) = receivers s"
  by (simp add: dispatch_def negotiateTopics_eq requestTimeSync_eq completeTimeSync_eq Let_def
      split: prod.splits option.splits)

subsection \<open>The state machine, one state at a time\<close>

lemma int16_id: "- 32768 \<le> x \<Longrightarrow> x \<le> 32767 \<Longrightarrow> int16 x = x"
  by (simp add: int16_def)

lemma int16_range: "- 32768 \<le> int16 x \<and> int16 x \<le> 32767"
proof -
  have "0 \<le> (x + 32768) mod 65536 \<and> (x + 32768) mod 65536 < 65536"
    by simp
  then show ?thesis
    unfolding int16_def by linarith
qed

lemma pb_FIRST_FF:
  "state s = STATE_FIRST_FF \<Longrightarrow>
   process_byte cfg b s =
     (if b = 0xFF then s\<lparr>checksum := int16 (checksum s + 255), state := STATE_SECOND_FF\<rparr>
      else reset (s\<lparr>state_error_count := int16 (state_error_count s + 1)\<rparr>))"
  by (auto simp: process_byte_def Let_def reset_def word_uint_eq_iff)

lemma pb_SECOND_FF:
  "state s = STATE_SECOND_FF \<Longrightarrow>
   process_byte cfg b s =
     (if b = 0xFF then s\<lparr>checksum := int16 (checksum s + 255), state := STATE_TOPIC_LOW\<rparr>
      else reset (s\<lparr>state_error_count := int16 (state_error_count s + 1)\<rparr>))"
  by (auto simp: process_byte_def Let_def reset_def word_uint_eq_iff)

lemma pb_TOPIC_LOW:
  "state s = STATE_TOPIC_LOW \<Longrightarrow>
   process_byte cfg b s = s\<lparr>checksum := uint b, topic := uint b, state := STATE_TOPIC_HIGH\<rparr>"
  by (simp add: process_byte_def Let_def)

lemma pb_TOPIC_HIGH:
  "state s = STATE_TOPIC_HIGH \<Longrightarrow>
   process_byte cfg b s =
     s\<lparr>checksum := int16 (checksum s + uint b), topic := int16 (topic s + 256 * uint b),
       state := STATE_SIZE_LOW\<rparr>"
  by (simp add: process_byte_def Let_def push_bit_eq_mult mult.commute [of _ 256])

lemma pb_SIZE_LOW:
  "state s = STATE_SIZE_LOW \<Longrightarrow>
   process_byte cfg b s =
     s\<lparr>checksum := int16 (checksum s + uint b), remaining_data_bytes := uint b,
       state := STATE_SIZE_HIGH\<rparr>"
  by (simp add: process_byte_def Let_def)

lemma pb_SIZE_HIGH:
  "state s = STATE_SIZE_HIGH \<Longrightarrow>
   process_byte cfg b s =
     (let n = int16 (remaining_data_bytes s + 256 * uint b)
      in if n = 0
         then s\<lparr>checksum := int16 (checksum s + uint b), remaining_data_bytes := n,
                state := STATE_CHECKSUM\<rparr>
         else if n \<le> int (kInputSize cfg)
         then s\<lparr>checksum := int16 (checksum s + uint b), remaining_data_bytes := n,
                state := STATE_MESSAGE\<rparr>
         else (reset s)\<lparr>invalid_size_error_count := int16 (invalid_size_error_count s + 1)\<rparr>)"
  by (simp add: process_byte_def Let_def push_bit_eq_mult reset_def mult.commute [of _ 256])

lemma pb_MESSAGE:
  "state s = STATE_MESSAGE \<Longrightarrow>
   process_byte cfg b s =
     s\<lparr>checksum := int16 (checksum s + uint b),
       message_in := (message_in s)(data_index s := b),
       buffer_writes := buffer_writes s @ [data_index s],
       data_index := int16 (data_index s + 1),
       remaining_data_bytes := int16 (remaining_data_bytes s - 1),
       state := (if int16 (remaining_data_bytes s - 1) = 0 then STATE_CHECKSUM
                 else STATE_MESSAGE)\<rparr>"
  by (simp add: process_byte_def Let_def)

lemma pb_CHECKSUM:
  "state s = STATE_CHECKSUM \<Longrightarrow>
   process_byte cfg b s =
     reset
       (if int16 (checksum s + uint b) smod 256 = 255
        then dispatch cfg
               (s\<lparr>checksum := int16 (checksum s + uint b),
                  dispatched :=
                    dispatched s @ [(topic s, buffer_prefix s (nat (data_index s)))]\<rparr>)
        else s\<lparr>checksum := int16 (checksum s + uint b)\<rparr>)"
  by (simp add: process_byte_def Let_def buffer_prefix_def)

text \<open>The facts that evaluate the state machine on given bytes.\<close>

lemmas eval_rx =
  pb_FIRST_FF pb_SECOND_FF pb_TOPIC_LOW pb_TOPIC_HIGH pb_SIZE_LOW pb_SIZE_HIGH pb_MESSAGE
  requestTimeSync_eq fresh_def NodeHandle_ctor_def port_at_def zero_storage_def Let_def
  int16_def

section \<open>Round trip of a frame\<close>

lemma feed_append: "feed cfg (xs @ ys) s = feed cfg ys (feed cfg xs s)"
  by (induction xs arbitrary: s) simp_all

lemma sum_unat_uint: "int (sum_list (map unat p)) = sum_list (map uint p)"
  by (induction p) simp_all

lemma int16_add_left: "int16 (int16 x + y) = int16 (x + y)"
proof -
  have "int16 x + y + 32768 = (x + 32768) mod 65536 + y"
    by (simp add: int16_def)
  then have "(int16 x + y + 32768) mod 65536 = ((x + 32768) mod 65536 + y) mod 65536"
    by (rule arg_cong)
  also have "\<dots> = (x + 32768 + y) mod 65536"
    by (rule mod_add_left_eq)
  also have "x + 32768 + y = x + y + 32768"
    by simp
  finally show ?thesis
    by (simp only: int16_def [of "int16 x + y"] int16_def [of "x + y"])
qed

lemma sum_uint_nonneg: "0 \<le> sum_list (map uint (p :: byte list))"
  by (induction p) simp_all

text \<open>
  The payload bytes in \<^verbatim>\<open>STATE_MESSAGE\<close>, as long as \<^verbatim>\<open>data_index_\<close> stays in the range of
  \<^verbatim>\<open>int\<close>.
\<close>

lemma feed_payload:
  "state s = STATE_MESSAGE \<Longrightarrow> remaining_data_bytes s = int (length p) \<Longrightarrow> p \<noteq> [] \<Longrightarrow>
   0 \<le> data_index s \<Longrightarrow> data_index s + int (length p) \<le> 32767 \<Longrightarrow>
   feed cfg p s =
     s\<lparr>checksum := int16 (checksum s + sum_list (map uint p)),
       message_in :=
         (\<lambda>i. if data_index s \<le> i \<and> i < data_index s + int (length p)
              then p ! nat (i - data_index s) else message_in s i),
       buffer_writes := buffer_writes s @ map (\<lambda>k. data_index s + int k) [0..<length p],
       data_index := data_index s + int (length p),
       remaining_data_bytes := 0,
       state := STATE_CHECKSUM\<rparr>"
proof (induction p arbitrary: s)
  case Nil
  then show ?case by simp
next
  case (Cons b p)
  show ?case
  proof (cases "p = []")
    case True
    have "int16 (data_index s + 1) = data_index s + 1"
      using Cons.prems by (intro int16_id) simp_all
    then show ?thesis
      using Cons.prems True by (simp add: pb_MESSAGE fun_eq_iff int16_def)
  next
    case False
    let ?s1 = "process_byte cfg b s"
    have w2: "int16 (data_index s + 1) = data_index s + 1"
      using Cons.prems by (intro int16_id) simp_all
    have w3: "int16 (int (length (b # p)) - 1) = int (length p)"
      using Cons.prems by (simp add: int16_def)
    have s1: "?s1 = s\<lparr>checksum := int16 (checksum s + uint b),
       message_in := (message_in s)(data_index s := b),
       buffer_writes := buffer_writes s @ [data_index s],
       data_index := data_index s + 1,
       remaining_data_bytes := int (length p),
       state := STATE_MESSAGE\<rparr>"
      using Cons.prems(1,2) False by (simp add: pb_MESSAGE w2 w3 del: list.size)
    define d where "d = data_index s"
    have step: "feed cfg p ?s1 = s\<lparr>checksum := int16 (checksum s + uint b + sum_list (map uint p)),
       message_in :=
         (\<lambda>i. if d + 1 \<le> i \<and> i < d + 1 + int (length p)
              then p ! nat (i - (d + 1)) else ((message_in s)(d := b)) i),
       buffer_writes := buffer_writes s @ d # map (\<lambda>k. d + 1 + int k) [0..<length p],
       data_index := d + 1 + int (length p),
       remaining_data_bytes := 0,
       state := STATE_CHECKSUM\<rparr>"
      using Cons.IH [of ?s1] False Cons.prems(4,5)
      by (simp add: s1 d_def add.assoc int16_add_left cong: if_cong)
    have f1: "map (\<lambda>k. d + int k) [0..<length (b # p)]
        = d # map (\<lambda>k. d + 1 + int k) [0..<length p]"
      by (simp add: upt_conv_Cons map_Suc_upt [symmetric] del: upt_Suc)
    have f2: "(\<lambda>i. if d + 1 \<le> i \<and> i < d + 1 + int (length p)
              then p ! nat (i - (d + 1)) else ((message_in s)(d := b)) i)
       = (\<lambda>i. if d \<le> i \<and> i < d + int (length (b # p))
              then (b # p) ! nat (i - d) else message_in s i)"
    proof
      fix i
      show "(if d + 1 \<le> i \<and> i < d + 1 + int (length p)
              then p ! nat (i - (d + 1)) else ((message_in s)(d := b)) i)
       = (if d \<le> i \<and> i < d + int (length (b # p))
              then (b # p) ! nat (i - d) else message_in s i)"
      proof (cases "i = d")
        case True then show ?thesis by simp
      next
        case ne: False
        show ?thesis
        proof (cases "d + 1 \<le> i")
          case True
          then have "nat (i - d) = Suc (nat (i - (d + 1)))" by simp
          with True ne show ?thesis by simp
        next
          case False
          with ne show ?thesis by simp
        qed
      qed
    qed
    show ?thesis
      apply (simp only: feed.simps step f1 [symmetric] f2 d_def [symmetric])
      apply (simp add: add.assoc del: upt_Suc)
      done
  qed
qed

lemma buffer_prefix_stored:
  "(\<And>k. k < n \<Longrightarrow> message_in s (int k) = p ! k) \<Longrightarrow> length p = n \<Longrightarrow> buffer_prefix s n = p"
  by (auto simp: buffer_prefix_def list_eq_iff_nth_eq)


lemma uint_byte_of_nat: "n < 256 \<Longrightarrow> uint (of_nat n :: byte) = int n"
  by (simp add: uint_nat unat_of_nat)

lemma smod_nonneg: "0 \<le> a \<Longrightarrow> (a::int) smod 256 = a mod 256"
  by (simp add: smod_int_alt_def sgn_if)

lemma frame_checksum_ok:
  "(int (topic_id mod 256) + int (topic_id div 256) + int (length payload mod 256)
     + int (length payload div 256) + sum_list (map uint payload)
     + int (frame_checksum topic_id payload)) smod 256 = 255"
proof -
  define T where "T = topic_id mod 256 + topic_id div 256 + length payload mod 256
            + length payload div 256 + sum_list (map unat payload)"
  have ck: "frame_checksum topic_id payload = 255 - T mod 256"
    by (simp add: frame_checksum_def T_def)
  have r: "T mod 256 \<le> 255"
    using mod_less_divisor [of 256 T] by linarith
  have cki: "int (frame_checksum topic_id payload) = 255 - int T mod 256"
    using r by (simp add: ck zmod_int)
  have e: "int T = 256 * (int T div 256) + int T mod 256" by simp
  have "int T + (255 - int T mod 256) = 255 + (int T div 256) * 256"
    using e by linarith
  then have "(int T + (255 - int T mod 256)) mod 256 = 255"
    by (simp only: mod_mult_self1) simp
  then have "(int T + int (frame_checksum topic_id payload)) mod 256 = 255"
    by (simp only: cki)
  moreover have "int T = int (topic_id mod 256) + int (topic_id div 256) + int (length payload mod 256)
     + int (length payload div 256) + sum_list (map uint payload)"
    by (simp add: T_def sum_unat_uint)
  ultimately show ?thesis
    by (simp add: smod_nonneg sum_list_nonneg)
qed


lemma feed_header:
  assumes t: "topic_id < 65536" and n: "length payload \<le> kInputSize cfg"
    and n16: "length payload < 32768" and st: "state s = STATE_FIRST_FF"
  shows "feed cfg [0xFF, 0xFF, of_nat (topic_id mod 256), of_nat (topic_id div 256),
                   of_nat (length payload mod 256), of_nat (length payload div 256)] s =
           s\<lparr>checksum := int (topic_id mod 256) + int (topic_id div 256)
                    + int (length payload mod 256) + int (length payload div 256),
             topic := int16 (int topic_id),
             remaining_data_bytes := int (length payload),
             state := (if payload = [] then STATE_CHECKSUM else STATE_MESSAGE)\<rparr>"
proof -
  have th: "topic_id div 256 < 256" using t by simp
  have sh: "length payload div 256 < 256" using n16 by simp
  have tl: "topic_id mod 256 < 256" and sl: "length payload mod 256 < 256" by simp_all
  have te: "int (topic_id mod 256) + 256 * int (topic_id div 256) = int topic_id"
    by (simp add: zmod_int zdiv_int)
  have se: "int (length payload mod 256) + 256 * int (length payload div 256)
              = int (length payload)"
    by (simp add: zmod_int zdiv_int)
  have sw: "int16 (int (length payload mod 256) + 256 * int (length payload div 256))
              = int (length payload)"
    using n16 by (simp only: se) (simp add: int16_id)
  have c2: "int16 (int (topic_id mod 256) + int (topic_id div 256))
              = int (topic_id mod 256) + int (topic_id div 256)"
    using th tl by (intro int16_id) linarith+
  have c3: "int16 (int (topic_id mod 256) + int (topic_id div 256)
                   + int (length payload mod 256))
              = int (topic_id mod 256) + int (topic_id div 256) + int (length payload mod 256)"
    using th tl sl by (intro int16_id) linarith+
  have c4: "int16 (int (topic_id mod 256) + int (topic_id div 256)
                   + int (length payload mod 256) + int (length payload div 256))
              = int (topic_id mod 256) + int (topic_id div 256) + int (length payload mod 256)
                + int (length payload div 256)"
    using th tl sl sh by (intro int16_id) linarith+
  have le: "int (length payload) \<le> int (kInputSize cfg)" using n by simp
  show ?thesis
    using st n
    by (simp add: pb_FIRST_FF pb_SECOND_FF pb_TOPIC_LOW pb_TOPIC_HIGH pb_SIZE_LOW pb_SIZE_HIGH
        uint_byte_of_nat [OF th] uint_byte_of_nat [OF sh] uint_byte_of_nat [OF tl]
        uint_byte_of_nat [OF sl] te sw c2 c3 c4 le Let_def)
qed

text \<open>
  What the frame of a topic and a payload does to the state machine in its initial
  state: whether it is dispatched is decided by the sum of its bytes as \<^verbatim>\<open>checksum_\<close>
  holds it, and the topic it is dispatched with is the topic as \<^verbatim>\<open>topic_\<close> holds it.
\<close>

lemma frame_fed_wrapped:
  assumes t: "topic_id < 65536" and n: "length payload \<le> kInputSize cfg"
    and n16: "length payload < 32768"
    and st: "state s = STATE_FIRST_FF" and di: "data_index s = 0"
  shows "dispatched (feed cfg (frame topic_id payload) s)
           = (if int16 (int (frame_sum topic_id payload)) smod 256 = 255
              then dispatched s @ [(int16 (int topic_id), payload)]
              else dispatched s)"
proof -
  let ?hdr = "[0xFF, 0xFF, of_nat (topic_id mod 256), of_nat (topic_id div 256),
               of_nat (length payload mod 256), of_nat (length payload div 256)] :: byte list"
  let ?ck = "of_nat (frame_checksum topic_id payload) :: byte"
  let ?c4 = "int (topic_id mod 256) + int (topic_id div 256)
                    + int (length payload mod 256) + int (length payload div 256)"
  define s6 where "s6 = feed cfg ?hdr s"
  define s7 where "s7 = feed cfg payload s6"
  have s6: "s6 = s\<lparr>checksum := ?c4, topic := int16 (int topic_id),
             remaining_data_bytes := int (length payload),
             state := (if payload = [] then STATE_CHECKSUM else STATE_MESSAGE)\<rparr>"
    unfolding s6_def by (rule feed_header [OF t n n16 st])
  have ckb: "frame_checksum topic_id p < 256" for p
    by (simp add: frame_checksum_def)
  have uck: "uint (of_nat (frame_checksum topic_id p) :: byte) = int (frame_checksum topic_id p)"
    for p
    by (rule uint_byte_of_nat [OF ckb])
  have total: "?c4 + sum_list (map uint payload) + int (frame_checksum topic_id payload)
                 = int (frame_sum topic_id payload)"
    by (simp add: frame_sum_def sum_unat_uint)
  have s7: "state s7 = STATE_CHECKSUM \<and> topic s7 = int16 (int topic_id)
      \<and> dispatched s7 = dispatched s
      \<and> int16 (checksum s7 + uint ?ck) = int16 (int (frame_sum topic_id payload))
      \<and> buffer_prefix s7 (nat (data_index s7)) = payload"
  proof (cases "payload = []")
    case True
    then show ?thesis
      using total by (simp add: s7_def s6 di buffer_prefix_def uck)
  next
    case False
    have eq: "s7 = s6\<lparr>checksum := int16 (checksum s6 + sum_list (map uint payload)),
       message_in :=
         (\<lambda>i. if data_index s6 \<le> i \<and> i < data_index s6 + int (length payload)
              then payload ! nat (i - data_index s6) else message_in s6 i),
       buffer_writes := buffer_writes s6 @ map (\<lambda>k. data_index s6 + int k) [0..<length payload],
       data_index := data_index s6 + int (length payload),
       remaining_data_bytes := 0,
       state := STATE_CHECKSUM\<rparr>"
      unfolding s7_def using False n16
      by (intro feed_payload) (simp_all add: s6 di)
    have d6: "data_index s6 = 0" by (simp add: s6 di)
    have di7: "data_index s7 = int (length payload)"
      by (subst eq) (simp add: d6)
    have "message_in s7 (int k) = payload ! k" if "k < length payload" for k
      using that by (subst eq) (simp add: d6)
    then have "buffer_prefix s7 (length payload) = payload"
      by (intro buffer_prefix_stored) simp_all
    moreover have "state s7 = STATE_CHECKSUM" by (subst eq) simp
    moreover have "topic s7 = int16 (int topic_id)" by (subst eq) (simp add: s6)
    moreover have "dispatched s7 = dispatched s" by (subst eq) (simp add: s6)
    moreover have "checksum s7 = int16 (?c4 + sum_list (map uint payload))"
      by (subst eq) (simp add: s6)
    then have "int16 (checksum s7 + uint ?ck) = int16 (int (frame_sum topic_id payload))"
      using total by (simp add: int16_add_left uck)
    ultimately show ?thesis by (simp add: di7)
  qed
  have "feed cfg (frame topic_id payload) s = process_byte cfg ?ck s7"
    unfolding frame_def feed_append s7_def s6_def by (simp only: feed.simps)
  then show ?thesis
    using s7 by (simp add: pb_CHECKSUM reset_def)
qed

lemma frame_sum_ok: "int (frame_sum topic_id payload) smod 256 = 255"
  using frame_checksum_ok [of topic_id payload]
  by (simp add: frame_sum_def sum_unat_uint)

lemma frame_fed:
  assumes t: "topic_id < 32768" and n: "length payload \<le> kInputSize cfg"
    and n16: "length payload < 32768"
    and fs: "frame_sum topic_id payload \<le> 32767"
    and st: "state s = STATE_FIRST_FF" and di: "data_index s = 0"
  shows "dispatched (feed cfg (frame topic_id payload) s)
           = dispatched s @ [(int topic_id, payload)]"
proof -
  have "int16 (int (frame_sum topic_id payload)) = int (frame_sum topic_id payload)"
    using fs by (intro int16_id) simp_all
  moreover have "int16 (int topic_id) = int topic_id"
    using t by (intro int16_id) simp_all
  moreover have "topic_id < 65536" using t by simp
  ultimately show ?thesis
    using frame_fed_wrapped [OF _ n n16 st di, of topic_id] frame_sum_ok [of topic_id payload]
    by simp
qed




text \<open>
  A payload of at most 125 bytes keeps the sum of the frame's bytes within the range of
  \<^verbatim>\<open>checksum_\<close>.
\<close>

lemma sum_unat_bound: "sum_list (map unat (p :: byte list)) \<le> 255 * length p"
proof (induction p)
  case Nil
  then show ?case by simp
next
  case (Cons b p)
  have "unat b < 2 ^ LENGTH(8)" by (rule unsigned_less)
  then have "unat b \<le> 255" by simp
  with Cons show ?case by simp
qed

lemma short_frame_sum:
  assumes "topic_id < 32768" and "length payload \<le> 125"
  shows "frame_sum topic_id payload \<le> 32767"
proof -
  have "topic_id mod 256 \<le> 255" "topic_id div 256 \<le> 127"
    "length payload mod 256 \<le> 125" "length payload div 256 = 0"
    "frame_checksum topic_id payload \<le> 255"
    using assms by (simp_all add: frame_checksum_def)
  moreover have "sum_list (map unat payload) \<le> 255 * 125"
    using sum_unat_bound [of payload] assms(2) by linarith
  ultimately show ?thesis
    unfolding frame_sum_def by linarith
qed

section \<open>Confinement of the receive buffer\<close>

lemma rx_inv_process_byte:
  "rx_inv s \<Longrightarrow> rx_inv (process_byte cfg b s)"
  by (cases "state s")
     (auto simp: rx_inv_def pb_FIRST_FF pb_SECOND_FF pb_TOPIC_LOW pb_TOPIC_HIGH
        pb_SIZE_LOW pb_SIZE_HIGH pb_MESSAGE pb_CHECKSUM reset_def Let_def)

lemma feed_rx_inv:
  "rx_inv s \<Longrightarrow> rx_inv (feed cfg bs s)"
  by (induction bs arbitrary: s) (simp_all add: rx_inv_process_byte)

lemma ctor_rx_inv: "rx_inv (NodeHandle_ctor hw raw)"
  by (simp add: rx_inv_def NodeHandle_ctor_def)

text \<open>
  A declared size above \<open>kInputSize\<close> that \<^verbatim>\<open>remaining_data_bytes_\<close> can hold is discarded
  at the size-high byte.
\<close>

lemma oversize_discarded:
  assumes "state s = STATE_SIZE_LOW" "int (kInputSize cfg) < uint lo + 256 * uint hi"
    and "uint lo + 256 * uint hi \<le> 32767"
  shows "feed cfg [lo, hi] s =
           (reset s)\<lparr>invalid_size_error_count := int16 (invalid_size_error_count s + 1)\<rparr>"
proof -
  have "int16 (uint lo + 256 * uint hi) = uint lo + 256 * uint hi"
    using assms(2,3) by (intro int16_id) linarith+
  moreover have "uint lo + 256 * uint hi \<noteq> 0"
    using assms(2) by simp
  ultimately show ?thesis
    using assms by (simp add: pb_SIZE_LOW pb_SIZE_HIGH Let_def reset_def)
qed

text \<open>
  A declared size of 32768 or more is one \<^verbatim>\<open>remaining_data_bytes_\<close> cannot hold: the
  member is negative after the size-high byte, the test against \<open>kInputSize\<close> passes
  and the machine goes on to \<^verbatim>\<open>STATE_MESSAGE\<close>.
\<close>

lemma oversize_accepted:
  assumes "state s = STATE_SIZE_LOW" "128 \<le> uint hi"
  shows "feed cfg [lo, hi] s =
           s\<lparr>checksum := int16 (int16 (checksum s + uint lo) + uint hi),
             remaining_data_bytes := uint lo + 256 * uint hi - 65536,
             state := STATE_MESSAGE\<rparr>"
proof -
  have lo: "0 \<le> uint lo" "uint lo < 256" and hi: "uint hi < 256"
    using uint_bounded [of lo] uint_bounded [of hi] by simp_all
  have "uint lo + 256 * uint hi + 32768 = uint lo + 256 * uint hi - 32768 + 1 * 65536"
    by simp
  then have "(uint lo + 256 * uint hi + 32768) mod 65536
          = (uint lo + 256 * uint hi - 32768 + 1 * 65536) mod 65536"
    by (rule arg_cong)
  also have "\<dots> = (uint lo + 256 * uint hi - 32768) mod 65536"
    by (simp only: mod_add_self2 mult_1)
  also have "\<dots> = uint lo + 256 * uint hi - 32768"
    using lo hi assms(2) by (intro mod_pos_pos_trivial) linarith+
  finally have w: "int16 (uint lo + 256 * uint hi) = uint lo + 256 * uint hi - 65536"
    by (simp add: int16_def)
  have neg: "uint lo + 256 * uint hi - 65536 < 0"
    using lo hi by linarith
  then have "uint lo + 256 * uint hi - 65536 \<noteq> 0"
    and "uint lo + 256 * uint hi - 65536 \<le> int (kInputSize cfg)"
    by linarith+
  then show ?thesis
    using assms(1) by (simp add: pb_SIZE_LOW pb_SIZE_HIGH Let_def w)
qed

text \<open>
  From then on every byte is stored, while \<^verbatim>\<open>remaining_data_bytes_\<close> counts down from
  its negative value.
\<close>

lemma feed_message_negative:
  "state s = STATE_MESSAGE \<Longrightarrow> remaining_data_bytes s < 0 \<Longrightarrow>
   - 32768 \<le> remaining_data_bytes s - int (length p) \<Longrightarrow>
   0 \<le> data_index s \<Longrightarrow> data_index s + int (length p) \<le> 32767 \<Longrightarrow>
   state (feed cfg p s) = STATE_MESSAGE
   \<and> remaining_data_bytes (feed cfg p s) = remaining_data_bytes s - int (length p)
   \<and> data_index (feed cfg p s) = data_index s + int (length p)
   \<and> invalid_size_error_count (feed cfg p s) = invalid_size_error_count s
   \<and> buffer_writes (feed cfg p s)
       = buffer_writes s @ map (\<lambda>k. data_index s + int k) [0..<length p]"
proof (induction p arbitrary: s)
  case Nil
  then show ?case by simp
next
  case (Cons b p)
  let ?n = "process_byte cfg b s"
  have w1: "int16 (data_index s + 1) = data_index s + 1"
    using Cons.prems by (intro int16_id) simp_all
  have w2: "int16 (remaining_data_bytes s - 1) = remaining_data_bytes s - 1"
    using Cons.prems by (intro int16_id) simp_all
  have z: "remaining_data_bytes s \<noteq> 1"
    using Cons.prems by simp
  have n: "state ?n = STATE_MESSAGE" "remaining_data_bytes ?n = remaining_data_bytes s - 1"
    "data_index ?n = data_index s + 1"
    "invalid_size_error_count ?n = invalid_size_error_count s"
    "buffer_writes ?n = buffer_writes s @ [data_index s]"
    using Cons.prems(1) by (simp_all add: pb_MESSAGE w1 w2 z)
  have ih: "state (feed cfg p ?n) = STATE_MESSAGE
   \<and> remaining_data_bytes (feed cfg p ?n) = remaining_data_bytes ?n - int (length p)
   \<and> data_index (feed cfg p ?n) = data_index ?n + int (length p)
   \<and> invalid_size_error_count (feed cfg p ?n) = invalid_size_error_count ?n
   \<and> buffer_writes (feed cfg p ?n)
       = buffer_writes ?n @ map (\<lambda>k. data_index ?n + int k) [0..<length p]"
    using Cons.prems by (intro Cons.IH) (simp_all add: n)
  have m: "map (\<lambda>k. data_index s + int k) [0..<Suc (length p)]
             = data_index s # map (\<lambda>k. data_index s + 1 + int k) [0..<length p]"
    by (simp add: upt_conv_Cons map_Suc_upt [symmetric] del: upt_Suc)
  show ?case
    using ih by (simp add: n m del: upt_Suc)
qed

text \<open>
  Claim C2. Every store into \<open>message_in\<close> is at an index in \<open>[0, kInputSize)\<close>, and a
  frame that declares more than \<open>kInputSize\<close> payload bytes is discarded at the size-high
  byte, counted as an invalid size, with none of its bytes stored. The code does this for
  declared sizes up to 32767 (\<open>oversize_discarded\<close>) and not beyond
  (\<open>oversize_accepted\<close>, \<open>feed_message_negative\<close>). On a constructed handle with a 16-byte
  receive buffer, the header \<^verbatim>\<open>FF FF 64 00 FF FF\<close> declares 65535 payload bytes;
  \<^verbatim>\<open>remaining_data_bytes_\<close> is then \<open>-1\<close>, the frame is not discarded and not
  counted, and the twenty bytes that follow are stored at the indices 0 to 19.
\<close>

theorem receive_buffer_overrun:
  "kInputSize sample_config = 16
   \<and> state (feed sample_config [0xFF, 0xFF, 0x64, 0, 0xFF, 0xFF] (fresh 0 [])) = STATE_MESSAGE
   \<and> remaining_data_bytes (feed sample_config [0xFF, 0xFF, 0x64, 0, 0xFF, 0xFF] (fresh 0 []))
       = - 1
   \<and> invalid_size_error_count
         (feed sample_config ([0xFF, 0xFF, 0x64, 0, 0xFF, 0xFF] @ replicate 20 7) (fresh 0 [])) = 0
   \<and> buffer_writes
         (feed sample_config ([0xFF, 0xFF, 0x64, 0, 0xFF, 0xFF] @ replicate 20 7) (fresh 0 []))
       = [0, 1, 2, 3, 4, 5, 6, 7, 8, 9, 10, 11, 12, 13, 14, 15, 16, 17, 18, 19]"
proof -
  define h where "h = feed sample_config [0xFF, 0xFF, 0x64, 0, 0xFF, 0xFF] (fresh 0 [])"
  have h: "state h = STATE_MESSAGE" "remaining_data_bytes h = - 1"
    "data_index h = 0" "invalid_size_error_count h = 0" "buffer_writes h = []"
    unfolding h_def by (simp_all add: eval_rx sample_config_def)
  have p: "remaining_data_bytes h < 0"
    "- 32768 \<le> remaining_data_bytes h - int (length (replicate 20 (7 :: byte)))"
    "0 \<le> data_index h"
    "data_index h + int (length (replicate 20 (7 :: byte))) \<le> 32767"
    by (simp_all add: h)
  note r = feed_message_negative [OF h(1) p, of sample_config]
  have "invalid_size_error_count (feed sample_config (replicate 20 7) h)
          = invalid_size_error_count h"
    using r by blast
  then have c: "invalid_size_error_count (feed sample_config (replicate 20 7) h) = 0"
    by (simp only: h)
  have "buffer_writes (feed sample_config (replicate 20 7) h)
          = buffer_writes h
            @ map (\<lambda>k. data_index h + int k) [0..<length (replicate 20 (7 :: byte))]"
    using r by blast
  also have "\<dots> = [0, 1, 2, 3, 4, 5, 6, 7, 8, 9, 10, 11, 12, 13, 14, 15, 16, 17, 18, 19]"
    by (simp add: h upt_rec)
  finally show ?thesis
    using h(1,2) c by (simp only: feed_append h_def [symmetric]) (simp add: sample_config_def)
qed


section \<open>Bounded work per spin\<close>

lemma process_byte_rx [simp]: "rx (hardware (process_byte cfg b s)) = rx (hardware s)"
  by (cases "state s")
     (simp_all add: pb_FIRST_FF pb_SECOND_FF pb_TOPIC_LOW pb_TOPIC_HIGH pb_SIZE_LOW
        pb_SIZE_HIGH pb_MESSAGE pb_CHECKSUM reset_def Let_def)

lemma read_loop_count:
  "fst (read_loop cfg n s) = n + min (kMaxBytesPerSpin cfg - n) (available (hardware s))
   \<and> rx (hardware (snd (read_loop cfg n s))) =
       drop (min (kMaxBytesPerSpin cfg - n) (available (hardware s))
             + (if available (hardware s) < kMaxBytesPerSpin cfg - n then 1 else 0))
         (rx (hardware s))"
proof (induction cfg n s rule: read_loop.induct)
  case (1 cfg n s)
  show ?case
  proof (cases "n < kMaxBytesPerSpin cfg")
    case False
    then show ?thesis by (subst (1 2) read_loop.simps) simp
  next
    case True
    show ?thesis
    proof (cases "rx (hardware s)")
      case Nil
      with True show ?thesis
        by (subst (1 2) read_loop.simps) (simp add: hw_read_def available_def)
    next
      case (Cons r rest)
      show ?thesis
      proof (cases r)
        case None
        with True Cons show ?thesis
          by (subst (1 2) read_loop.simps) (simp add: hw_read_def available_def)
      next
        case (Some b)
        let ?s1 = "s\<lparr>hardware := (hardware s)\<lparr>rx := rest\<rparr>\<rparr>"
        have hr: "hw_read s = (Some b, ?s1)"
          using Cons Some by (simp add: hw_read_def)
        have av: "available (hardware s) = Suc (available (hardware (process_byte cfg b ?s1)))"
          using Cons Some by (simp add: available_def)
        have k: "kMaxBytesPerSpin cfg - n = Suc (kMaxBytesPerSpin cfg - (n + 1))"
          using True by simp
        from "1.IH" [OF True hr [symmetric] refl]
        show ?thesis
          apply (subst (1 2) read_loop.simps)
          apply (simp only: True if_True hr prod.case option.case)
          apply (simp only: av k)
          using Cons apply simp
          done
      qed
    qed
  qed
qed


lemma read_loop_invariant:
  assumes port: "\<And>s r. I s \<Longrightarrow> I (s\<lparr>hardware := (hardware s)\<lparr>rx := r\<rparr>\<rparr>)"
    and step: "\<And>b s. I s \<Longrightarrow> I (process_byte cfg b s)"
    and init: "I s"
  shows "I (snd (read_loop cfg n s))"
  using step init
proof (induction cfg n s rule: read_loop.induct)
  case (1 c n s)
  note st = "1.prems"(1) and ini = "1.prems"(2)
  show ?case
  proof (cases "n < kMaxBytesPerSpin c")
    case False
    then show ?thesis using ini by (subst read_loop.simps) simp
  next
    case True
    show ?thesis
    proof (cases "hw_read s")
      case (Pair r s1)
      have s1: "I s1"
        using Pair ini port [of s]
        by (auto simp: hw_read_def Let_def split: list.splits)
      show ?thesis
      proof (cases r)
        case None
        with True Pair s1 show ?thesis by (subst read_loop.simps) simp
      next
        case (Some b)
        have "I (snd (read_loop c (n + 1) (process_byte c b s1)))"
          by (rule "1.IH" [OF True Pair [symmetric] Some st st [OF s1]])
        with True Pair Some show ?thesis by (subst read_loop.simps) simp
      qed
    qed
  qed
qed

lemma check_connection_rx [simp]:
  "rx (hardware (check_connection cfg t s)) = rx (hardware s)"
  by (simp add: check_connection_def requestTimeSync_eq reset_def Let_def)

lemma hw_time_rx [simp]: "rx (hardware (snd (hw_time s))) = rx (hardware s)"
  by (simp add: hw_time_def Let_def)

text \<open>
  Claim C7. A call of \<^verbatim>\<open>spinOnce\<close> returns the number of bytes the port delivered
  before it first reported that none was available, capped at \<open>kMaxBytesPerSpin\<close>;
  these bytes, and the "no byte" answer that stopped the loop early, are what the call
  took from the port.
\<close>

theorem spinOnce_byte_count:
  "fst (spinOnce cfg s) = min (kMaxBytesPerSpin cfg) (available (hardware s))
   \<and> fst (spinOnce cfg s) \<le> kMaxBytesPerSpin cfg
   \<and> rx (hardware (snd (spinOnce cfg s))) =
       drop (fst (spinOnce cfg s)
             + (if available (hardware s) < kMaxBytesPerSpin cfg then 1 else 0))
         (rx (hardware s))"
proof -
  obtain t s1 where ht: "hw_time s = (t, s1)" by (cases "hw_time s")
  let ?s2 = "check_connection cfg t s1"
  have sp: "spinOnce cfg s = read_loop cfg 0 ?s2"
    by (simp add: spinOnce_def ht)
  have rx1: "rx (hardware s1) = rx (hardware s)"
    using hw_time_rx [of s] by (simp add: ht)
  have av: "available (hardware ?s2) = available (hardware s)"
    by (simp add: available_def rx1)
  from read_loop_count [of cfg 0 ?s2] show ?thesis
    by (simp add: sp av rx1)
qed

theorem spinOnce_byte_count_witness:
  "fst (spinOnce sample_config (fresh 0 [Some 1, Some 2, None, Some 3])) = 2
   \<and> rx (hardware (snd (spinOnce sample_config (fresh 0 [Some 1, Some 2, None, Some 3]))))
       = [Some 3]
   \<and> fst (spinOnce sample_config (fresh 0 (replicate 9 (Some 0)))) = 8
   \<and> rx (hardware (snd (spinOnce sample_config (fresh 0 (replicate 9 (Some 0))))))
       = [Some 0]"
proof -
  have a: "available (hardware (fresh 0 [Some 1, Some 2, None, Some 3])) = 2"
    by (simp add: available_def fresh_def NodeHandle_ctor_def port_at_def)
  have b: "available (hardware (fresh 0 (replicate 9 (Some 0)))) = 9"
    by (simp add: available_def fresh_def NodeHandle_ctor_def port_at_def)
  have k: "kMaxBytesPerSpin sample_config = 8" by (simp add: sample_config_def)
  have r: "rx (hardware (fresh 0 rs)) = rs" for rs
    by (simp add: fresh_def NodeHandle_ctor_def port_at_def)
  from spinOnce_byte_count [of sample_config "fresh 0 [Some 1, Some 2, None, Some 3]"]
    spinOnce_byte_count [of sample_config "fresh 0 (replicate 9 (Some 0))"]
  show ?thesis
    by (simp add: a b k r)
qed


subsection \<open>The invariant of the receive state machine across spinOnce\<close>

lemma first_ff_data_index: "rx_inv s \<Longrightarrow> state s = STATE_FIRST_FF \<Longrightarrow> data_index s = 0"
  by (simp add: rx_inv_def)

lemma spinOnce_rx_inv:
  assumes "rx_inv s"
  shows "rx_inv (snd (spinOnce cfg s))"
proof -
  obtain t s1 where ht: "hw_time s = (t, s1)" by (cases "hw_time s")
  have "rx_inv (check_connection cfg t s1)"
    using ht assms
    by (auto simp: rx_inv_def check_connection_def requestTimeSync_eq reset_def
        hw_time_def Let_def split: rx_state.splits)
  then have "rx_inv (snd (read_loop cfg 0 (check_connection cfg t s1)))"
  proof (rule read_loop_invariant [where I = rx_inv, rotated 2])
    fix s' :: NodeHandle and r
    assume "rx_inv s'"
    then show "rx_inv (s'\<lparr>hardware := (hardware s')\<lparr>rx := r\<rparr>\<rparr>)"
      by (simp add: rx_inv_def split: rx_state.splits)
  next
    fix b and s' :: NodeHandle
    assume "rx_inv s'"
    then show "rx_inv (process_byte cfg b s')"
      by (rule rx_inv_process_byte)
  qed
  then show ?thesis by (simp add: spinOnce_def ht)
qed

subsection \<open>The read loop feeds the state machine\<close>

lemma dispatch_with_rx: "dispatch cfg (with_rx r s) = with_rx r (dispatch cfg s)"
  by (simp add: with_rx_def dispatch_def negotiateTopics_eq requestTimeSync_eq
      completeTimeSync_eq buffer_prefix_def slots_def Let_def
      split: prod.splits option.splits)

lemma with_rx_update:
  "(with_rx r s)\<lparr>checksum := c\<rparr> = with_rx r (s\<lparr>checksum := c\<rparr>)"
  "(with_rx r s)\<lparr>dispatched := d\<rparr> = with_rx r (s\<lparr>dispatched := d\<rparr>)"
  "with_rx r (with_rx r' s) = with_rx r s"
  "reset (with_rx r s) = with_rx r (reset s)"
  by (simp_all add: with_rx_def reset_def)

lemma with_rx_fields:
  "state (with_rx r s) = state s" "checksum (with_rx r s) = checksum s"
  "dispatched (with_rx r s) = dispatched s" "topic (with_rx r s) = topic s"
  "data_index (with_rx r s) = data_index s"
  "buffer_prefix (with_rx r s) n = buffer_prefix s n"
  "rx (hardware (with_rx r s)) = r"
  by (simp_all add: with_rx_def buffer_prefix_def)

lemma process_byte_with_rx:
  "process_byte cfg b (with_rx r s) = with_rx r (process_byte cfg b s)"
proof (cases "state s")
  case STATE_CHECKSUM
  then have st: "state (with_rx r s) = STATE_CHECKSUM"
    by (simp add: with_rx_fields)
  show ?thesis
    by (simp add: pb_CHECKSUM [OF st] pb_CHECKSUM [OF STATE_CHECKSUM] with_rx_fields
        with_rx_update dispatch_with_rx)
qed (simp_all add: with_rx_def pb_FIRST_FF pb_SECOND_FF pb_TOPIC_LOW pb_TOPIC_HIGH
      pb_SIZE_LOW pb_SIZE_HIGH pb_MESSAGE reset_def Let_def)

lemma feed_with_rx: "feed cfg bs (with_rx r s) = with_rx r (feed cfg bs s)"
  by (induction bs arbitrary: s) (simp_all add: process_byte_with_rx)


text \<open>
  The read loop feeds the bytes the port delivers to the state machine, in order: when
  the port delivers \<open>bs\<close> and then either has no byte available or the loop has read
  its \<open>kMaxBytesPerSpin\<close> bytes, the handle is as \<open>feed\<close> leaves it, the port apart.
\<close>

lemma read_loop_feed:
  assumes "rx (hardware s) = map Some bs @ rest"
    and "n + length bs \<le> kMaxBytesPerSpin cfg"
    and "n + length bs = kMaxBytesPerSpin cfg \<or> rest = [] \<or> hd rest = None"
  shows "read_loop cfg n s =
           (n + length bs,
            with_rx (if n + length bs = kMaxBytesPerSpin cfg then rest else tl rest)
              (feed cfg bs s))"
  using assms
proof (induction bs arbitrary: n s)
  case Nil
  show ?case
  proof (cases "n = kMaxBytesPerSpin cfg")
    case True
    with Nil show ?thesis
      by (subst read_loop.simps) (simp add: with_rx_def)
  next
    case False
    with Nil have lt: "n < kMaxBytesPerSpin cfg" and r: "rest = [] \<or> hd rest = None"
      by simp_all
    show ?thesis
    proof (cases rest)
      case Nil' : Nil
      with Nil.prems lt show ?thesis
        by (subst read_loop.simps) (simp add: hw_read_def with_rx_def)
    next
      case (Cons x xs)
      with r have "x = None" by simp
      with Cons Nil.prems lt show ?thesis
        by (subst read_loop.simps) (simp add: hw_read_def with_rx_def)
    qed
  qed
next
  case (Cons b bs)
  then have lt: "n < kMaxBytesPerSpin cfg" by simp
  let ?s1 = "with_rx (map Some bs @ rest) s"
  have hr: "hw_read s = (Some b, ?s1)"
    using Cons.prems(1) by (simp add: hw_read_def with_rx_def)
  have rx1: "rx (hardware (process_byte cfg b ?s1)) = map Some bs @ rest"
    by (simp add: with_rx_fields)
  have "read_loop cfg (n + 1) (process_byte cfg b ?s1) =
          (n + 1 + length bs,
           with_rx (if n + 1 + length bs = kMaxBytesPerSpin cfg then rest else tl rest)
             (feed cfg bs (process_byte cfg b ?s1)))"
    using Cons.prems by (intro Cons.IH rx1) simp_all
  then show ?case
    using lt
    by (subst read_loop.simps)
       (simp add: hr process_byte_with_rx feed_with_rx with_rx_update)
qed

lemma spinOnce_feed:
  assumes "\<not> connected s"
    and "rx (hardware s) = map Some bs @ rest"
    and "length bs \<le> kMaxBytesPerSpin cfg"
    and "length bs = kMaxBytesPerSpin cfg \<or> rest = [] \<or> hd rest = None"
  shows "spinOnce cfg s =
           (length bs,
            with_rx (if length bs = kMaxBytesPerSpin cfg then rest else tl rest)
              (feed cfg bs (snd (hw_time s))))"
  using assms read_loop_feed [of "snd (hw_time s)" bs rest 0 cfg]
  by (simp add: spinOnce_def check_connection_def hw_time_def Let_def)

lemma roundtrip_spinOnce:
  assumes "topic_id < 32768" and "length payload \<le> kInputSize cfg"
    and "length payload < 32768"
    and "frame_sum topic_id payload \<le> 32767"
    and "state s = STATE_FIRST_FF" and "data_index s = 0"
    and "\<not> connected s"
    and "rx (hardware s) = map Some (frame topic_id payload)"
    and "length (frame topic_id payload) \<le> kMaxBytesPerSpin cfg"
  shows "fst (spinOnce cfg s) = length payload + 7
         \<and> dispatched (snd (spinOnce cfg s)) = dispatched s @ [(int topic_id, payload)]"
proof -
  let ?s1 = "snd (hw_time s)"
  have sp: "spinOnce cfg s =
           (length (frame topic_id payload),
            with_rx (if length (frame topic_id payload) = kMaxBytesPerSpin cfg then []
                     else tl [])
              (feed cfg (frame topic_id payload) ?s1))"
    using assms(7-9) by (intro spinOnce_feed) simp_all
  have "dispatched (feed cfg (frame topic_id payload) ?s1)
          = dispatched ?s1 @ [(int topic_id, payload)]"
    using assms(1-6) by (intro frame_fed) (simp_all add: hw_time_def Let_def)
  then show ?thesis
    by (simp add: sp with_rx_fields) (simp add: hw_time_def Let_def frame_def)
qed

section \<open>Topic negotiation\<close>

lemma registered_eq:
  "registered t rs =
     (fresh t rs)
     \<lparr>publishers := (\<lambda>i. None)(0 \<mapsto> foo_publisher\<lparr>getId := 102\<rparr>),
      receivers := (\<lambda>i. None)(0 \<mapsto> bar_subscriber\<lparr>getId := 100\<rparr>),
      total_receivers := 1\<rparr>"
  by (simp add: registered_def registerReceiver_def advertise_def advertise_loop.simps
      sample_config_def fresh_def NodeHandle_ctor_def zero_storage_def int16_def)

text \<open>
  Claim C8. When the checksum byte of a frame on \<^verbatim>\<open>TOPIC_NEGOTIATION\<close> passes the test,
  the handle first requests a time sync (which publishes the empty time message unless a
  request is in flight) and then publishes one topic-info record on \<^verbatim>\<open>TOPIC_PUBLISHERS\<close>
  for each publisher slot up to the first empty one, in slot order, followed by one on
  \<^verbatim>\<open>TOPIC_SUBSCRIBERS\<close> for each receiver slot up to the first empty one.
\<close>

theorem negotiation_catalogue:
  assumes "state s = STATE_CHECKSUM" and "int16 (checksum s + uint b) smod 256 = 255"
    and "topic s = TOPIC_NEGOTIATION"
  shows "node_output (process_byte cfg b s) =
           node_output s
           @ (if 0 < time_sync_start s then [] else [(ID_TIME, empty_time)])
           @ map (\<lambda>p. (TOPIC_PUBLISHERS, topic_info p))
               (occupied (slots (publishers s) 0 (kMaxPublishers cfg)))
           @ map (\<lambda>r. (TOPIC_SUBSCRIBERS, topic_info r))
               (occupied (slots (receivers s) 0 (kMaxSubscribers cfg)))"
  using assms
  by (simp add: pb_CHECKSUM dispatch_def negotiateTopics_eq requestTimeSync_eq reset_def)

theorem negotiation_catalogue_witness:
  "state (feed sample_config [0xFF, 0xFF, 0, 0, 0, 0] (registered 0 [])) = STATE_CHECKSUM
   \<and> int16 (checksum (feed sample_config [0xFF, 0xFF, 0, 0, 0, 0] (registered 0 []))
             + uint (0xFF :: byte)) smod 256 = 255
   \<and> topic (feed sample_config [0xFF, 0xFF, 0, 0, 0, 0] (registered 0 [])) = TOPIC_NEGOTIATION
   \<and> node_output (feed sample_config [0xFF, 0xFF, 0, 0, 0, 0, 0xFF] (registered 0 [])) =
        [(10, TimeMsg \<lparr>sec = 0, nsec = 0\<rparr>),
         (0, TopicInfoMsg 102 ''/foo'' ''std_msgs/Int32''),
         (1, TopicInfoMsg 100 ''/bar'' ''std_msgs/Float32'')]"
proof -
  let ?s = "feed sample_config [0xFF, 0xFF, 0, 0, 0, 0] (registered 0 [])"
  have s: "?s = (registered 0 [])\<lparr>state := STATE_CHECKSUM\<rparr>"
    by (simp add: registered_eq fresh_def NodeHandle_ctor_def pb_FIRST_FF pb_SECOND_FF
        pb_TOPIC_LOW pb_TOPIC_HIGH pb_SIZE_LOW pb_SIZE_HIGH Let_def int16_def)
  have h: "state ?s = STATE_CHECKSUM" "int16 (checksum ?s + uint (0xFF :: byte)) smod 256 = 255"
    "topic ?s = TOPIC_NEGOTIATION"
    by (simp_all only: s)
       (simp_all add: registered_eq fresh_def NodeHandle_ctor_def topic_ids smod_nonneg
          int16_def)
  have f: "feed sample_config [0xFF, 0xFF, 0, 0, 0, 0, 0xFF] (registered 0 [])
             = process_byte sample_config 0xFF ?s"
    by (simp only: feed.simps)
  have sl: "slots (publishers ?s) 0 (kMaxPublishers sample_config)
              = [Some (foo_publisher\<lparr>getId := 102\<rparr>), None]"
    "slots (receivers ?s) 0 (kMaxSubscribers sample_config)
              = [Some (bar_subscriber\<lparr>getId := 100\<rparr>), None]"
    by (simp_all only: s)
       (simp_all add: registered_eq slots_def sample_config_def upt_rec)
  have o: "node_output ?s = []" "time_sync_start ?s = 0"
    by (simp_all only: s) (simp_all add: registered_eq fresh_def NodeHandle_ctor_def)
  from negotiation_catalogue [OF h, of sample_config]
  have "node_output (process_byte sample_config 0xFF ?s) =
        [(10, TimeMsg \<lparr>sec = 0, nsec = 0\<rparr>),
         (0, TopicInfoMsg 102 ''/foo'' ''std_msgs/Int32''),
         (1, TopicInfoMsg 100 ''/bar'' ''std_msgs/Float32'')]"
    by (simp only: sl o)
       (simp add: topic_ids empty_time_def topic_info_def foo_publisher_def bar_subscriber_def)
  with h show ?thesis by (simp only: f)
qed


section \<open>Time synchronisation and liveness\<close>

lemma dispatch_keeps_connected: "connected s \<Longrightarrow> connected (dispatch cfg s)"
  by (simp add: dispatch_def negotiateTopics_eq requestTimeSync_eq completeTimeSync_eq Let_def
      split: prod.splits option.splits)

lemma dispatch_connected_other:
  "topic s \<noteq> ID_TIME \<Longrightarrow> connected (dispatch cfg s) = connected s"
  by (simp add: dispatch_def negotiateTopics_eq requestTimeSync_eq Let_def
      split: prod.splits option.splits)

lemma dispatch_time:
  "topic s = ID_TIME \<Longrightarrow>
   dispatch cfg s =
     (completeTimeSync cfg (buffer_prefix s (kInputSize cfg)) s)\<lparr>connected := True\<rparr>"
  by (simp add: dispatch_def topic_ids)

text \<open>
  The frames a run has dispatched since the handle was in state \<open>s0\<close>, and the loop
  invariant of \<^verbatim>\<open>spinOnce\<close> for the connection flag: once a frame on the time topic has
  been dispatched, the handle is connected.
\<close>

lemma process_byte_time_connected:
  assumes len: "length (dispatched s0) \<le> length (dispatched s)"
    and inv: "ID_TIME \<in> fst ` set (drop (length (dispatched s0)) (dispatched s))
              \<Longrightarrow> connected s"
  shows "length (dispatched s0) \<le> length (dispatched (process_byte cfg b s))
         \<and> (ID_TIME \<in> fst ` set (drop (length (dispatched s0))
                                      (dispatched (process_byte cfg b s)))
              \<longrightarrow> connected (process_byte cfg b s))"
proof (cases "state s = STATE_CHECKSUM")
  case False
  then have "dispatched (process_byte cfg b s) = dispatched s
             \<and> connected (process_byte cfg b s) = connected s"
    by (cases "state s")
       (simp_all add: pb_FIRST_FF pb_SECOND_FF pb_TOPIC_LOW pb_TOPIC_HIGH pb_SIZE_LOW
          pb_SIZE_HIGH pb_MESSAGE reset_def Let_def)
  with len inv show ?thesis by simp
next
  case True
  show ?thesis
  proof (cases "int16 (checksum s + uint b) smod 256 = 255")
    case False
    with True have "dispatched (process_byte cfg b s) = dispatched s
             \<and> connected (process_byte cfg b s) = connected s"
      by (simp add: pb_CHECKSUM reset_def)
    with len inv show ?thesis by simp
  next
    case ok: True
    let ?s1 = "s\<lparr>checksum := int16 (checksum s + uint b),
                  dispatched :=
                    dispatched s @ [(topic s, buffer_prefix s (nat (data_index s)))]\<rparr>"
    have pb: "process_byte cfg b s = reset (dispatch cfg ?s1)"
      using True ok by (simp add: pb_CHECKSUM)
    have d: "dispatched (process_byte cfg b s)
               = dispatched s @ [(topic s, buffer_prefix s (nat (data_index s)))]"
      by (simp add: pb reset_def)
    show ?thesis
    proof (cases "topic s = ID_TIME")
      case True
      then have "connected (process_byte cfg b s)"
        by (simp add: pb reset_def dispatch_time)
      with len d show ?thesis by simp
    next
      case False
      then have c: "connected (process_byte cfg b s) = connected s"
        by (simp add: pb reset_def dispatch_connected_other)
      from len False inv show ?thesis
        by (auto simp: d c)
    qed
  qed
qed

lemma spinOnce_time_connected:
  assumes "ID_TIME \<in> fst ` set (drop (length (dispatched s)) (dispatched (snd (spinOnce cfg s))))"
  shows "connected (snd (spinOnce cfg s))"
proof -
  obtain t s1 where ht: "hw_time s = (t, s1)" by (cases "hw_time s")
  let ?s2 = "check_connection cfg t s1"
  let ?I = "\<lambda>s' :: NodeHandle. length (dispatched s) \<le> length (dispatched s')
         \<and> (ID_TIME \<in> fst ` set (drop (length (dispatched s)) (dispatched s'))
              \<longrightarrow> connected s')"
  have sp: "spinOnce cfg s = read_loop cfg 0 ?s2"
    by (simp add: spinOnce_def ht)
  have d2: "dispatched ?s2 = dispatched s"
    using ht by (auto simp: check_connection_def requestTimeSync_eq reset_def hw_time_def Let_def)
  have "?I (snd (read_loop cfg 0 ?s2))"
  proof (rule read_loop_invariant [where I = ?I])
    show "?I ?s2" by (simp add: d2)
  next
    fix s' :: NodeHandle and r
    assume "?I s'"
    then show "?I (s'\<lparr>hardware := (hardware s')\<lparr>rx := r\<rparr>\<rparr>)" by simp
  next
    fix b and s' :: NodeHandle
    assume "?I s'"
    then show "?I (process_byte cfg b s')"
      using process_byte_time_connected [of s s' cfg b] by blast
  qed
  with assms show ?thesis by (simp add: sp)
qed


lemma pb_time:
  assumes "state s = STATE_CHECKSUM" and "int16 (checksum s + uint b) smod 256 = 255"
    and "topic s = ID_TIME"
  shows "process_byte cfg b s =
     reset ((completeTimeSync cfg (buffer_prefix s (kInputSize cfg))
               (s\<lparr>checksum := int16 (checksum s + uint b),
                  dispatched :=
                    dispatched s @ [(topic s, buffer_prefix s (nat (data_index s)))]\<rparr>))
            \<lparr>connected := True\<rparr>)"
  using assms by (simp add: pb_CHECKSUM dispatch_time buffer_prefix_def)

text \<open>
  Claim C10. After the checksum byte of a frame on the time topic passes the test the
  handle is connected, whether or not the payload decodes; when it does not decode,
  \<^verbatim>\<open>time_sync_end_\<close> is the clock reading, and \<^verbatim>\<open>sync_time_\<close> and \<^verbatim>\<open>time_sync_start_\<close>
  are as before. A call of \<^verbatim>\<open>spinOnce\<close> that dispatched a frame on the time topic
  returns with the handle connected.
\<close>

theorem time_frame_connects:
  "(state s = STATE_CHECKSUM \<and> int16 (checksum s + uint b) smod 256 = 255 \<and> topic s = ID_TIME \<longrightarrow>
      connected (process_byte cfg b s)
      \<and> (fst (Time_deserialize cfg (buffer_prefix s (kInputSize cfg)) (kInputSize cfg)) < 0 \<longrightarrow>
           time_sync_end (process_byte cfg b s) = clock (hardware s) (ticks (hardware s))
           \<and> sync_time (process_byte cfg b s) = sync_time s
           \<and> time_sync_start (process_byte cfg b s) = time_sync_start s))
   \<and> (ID_TIME \<in> fst ` set (drop (length (dispatched s0)) (dispatched (snd (spinOnce cfg s0))))
        \<longrightarrow> connected (snd (spinOnce cfg s0)))"
proof (intro conjI impI)
  assume a: "state s = STATE_CHECKSUM \<and> int16 (checksum s + uint b) smod 256 = 255
             \<and> topic s = ID_TIME"
  then have pb: "process_byte cfg b s =
     reset ((completeTimeSync cfg (buffer_prefix s (kInputSize cfg))
               (s\<lparr>checksum := int16 (checksum s + uint b),
                  dispatched :=
                    dispatched s @ [(topic s, buffer_prefix s (nat (data_index s)))]\<rparr>))
            \<lparr>connected := True\<rparr>)"
    by (intro pb_time) simp_all
  show "connected (process_byte cfg b s)"
    by (simp add: pb reset_def)
  assume f: "fst (Time_deserialize cfg (buffer_prefix s (kInputSize cfg)) (kInputSize cfg)) < 0"
  show "time_sync_end (process_byte cfg b s) = clock (hardware s) (ticks (hardware s))"
    using f by (simp add: pb reset_def completeTimeSync_eq buffer_prefix_def Let_def)
  show "sync_time (process_byte cfg b s) = sync_time s"
    using f by (simp add: pb reset_def completeTimeSync_eq buffer_prefix_def Let_def)
  show "time_sync_start (process_byte cfg b s) = time_sync_start s"
    using f by (simp add: pb reset_def completeTimeSync_eq buffer_prefix_def Let_def)
next
  assume "ID_TIME \<in> fst ` set (drop (length (dispatched s0)) (dispatched (snd (spinOnce cfg s0))))"
  then show "connected (snd (spinOnce cfg s0))"
    by (rule spinOnce_time_connected)
qed

text \<open>
  Claim C5, amended. When the checksum byte of a frame on the time topic passes the test,
  \<^verbatim>\<open>time_sync_end_\<close> becomes the clock reading taken at completion and the handle is
  connected; when moreover the buffer decodes as a time message (\<^verbatim>\<open>deserialize\<close> returns
  no negative value), \<^verbatim>\<open>sync_time_\<close> becomes the decoded time advanced by half of
  \<^verbatim>\<open>time_sync_end_ - time_sync_start_\<close> milliseconds and \<^verbatim>\<open>time_sync_start_\<close> becomes 0.
\<close>

theorem time_sync_completion:
  assumes "state s = STATE_CHECKSUM" and "int16 (checksum s + uint b) smod 256 = 255"
    and "topic s = ID_TIME"
  shows "time_sync_end (process_byte cfg b s) = clock (hardware s) (ticks (hardware s))
     \<and> connected (process_byte cfg b s)
     \<and> (0 \<le> fst (Time_deserialize cfg (buffer_prefix s (kInputSize cfg)) (kInputSize cfg)) \<longrightarrow>
          sync_time (process_byte cfg b s) =
            add_millis
              (snd (Time_deserialize cfg (buffer_prefix s (kInputSize cfg)) (kInputSize cfg)))
              (unat ((clock (hardware s) (ticks (hardware s)) - time_sync_start s) div 2))
          \<and> time_sync_start (process_byte cfg b s) = 0)"
  by (simp add: pb_time [OF assms] reset_def completeTimeSync_eq buffer_prefix_def Let_def)


lemma small_time_decode: "fst (Time_deserialize small_config data (kInputSize small_config)) < 0"
  by (simp add: small_config_def sample_config_def sample_Time_deserialize_def)

theorem time_frame_connects_witness:
  "state (feed small_config [0xFF, 0xFF, 0x0A, 0, 0, 0] (requestTimeSync (fresh 7 [])))
     = STATE_CHECKSUM
   \<and> connected (feed small_config [0xFF, 0xFF, 0x0A, 0, 0, 0, 0xF5]
                   (requestTimeSync (fresh 7 [])))
   \<and> time_sync_end (feed small_config [0xFF, 0xFF, 0x0A, 0, 0, 0, 0xF5]
                       (requestTimeSync (fresh 7 []))) = 17
   \<and> time_sync_start (feed small_config [0xFF, 0xFF, 0x0A, 0, 0, 0, 0xF5]
                         (requestTimeSync (fresh 7 []))) = 7
   \<and> connected (snd (spinOnce small_config
        (fresh 7 [Some 0xFF, Some 0xFF, Some 0x0A, Some 0, Some 0, Some 0, Some 0xF5])))"
proof -
  let ?s = "feed small_config [0xFF, 0xFF, 0x0A, 0, 0, 0] (requestTimeSync (fresh 7 []))"
  let ?h = "fresh 7 [Some 0xFF, Some 0xFF, Some 0x0A, Some 0, Some 0, Some 0, Some 0xF5]"
  have h1: "state ?s = STATE_CHECKSUM"
    by (simp add: eval_rx)
  have h2: "int16 (checksum ?s + uint (0xF5 :: byte)) smod 256 = 255"
    by (simp add: eval_rx smod_nonneg)
  have h3: "topic ?s = ID_TIME"
    by (simp add: eval_rx topic_ids)
  note h = conjI [OF h1 conjI [OF h2 h3]]
  have v: "clock (hardware ?s) (ticks (hardware ?s)) = 17" "time_sync_start ?s = 7"
    by (simp_all add: eval_rx)
  have f: "feed small_config [0xFF, 0xFF, 0x0A, 0, 0, 0, 0xF5] (requestTimeSync (fresh 7 []))
             = process_byte small_config 0xF5 ?s"
    by (simp only: feed.simps)
  have d: "dispatched (snd (spinOnce small_config ?h)) = [(10, [])]"
    by (simp add: spinOnce_def hw_time_def check_connection_def read_loop.simps hw_read_def
        small_config_def sample_config_def eval_rx pb_CHECKSUM smod_nonneg reset_def
        buffer_prefix_def dispatch_time topic_ids completeTimeSync_eq
        sample_Time_deserialize_def)
  have e: "ID_TIME \<in> fst ` set (drop (length (dispatched ?h))
                                   (dispatched (snd (spinOnce small_config ?h))))"
    by (simp only: d) (simp add: eval_rx topic_ids)
  from time_frame_connects [of ?s "0xF5" small_config ?h] h e small_time_decode
  show ?thesis
    by (simp only: f v)
qed


theorem time_sync_completion_counterexample:
  "dispatched (feed small_config (frame 10 []) (requestTimeSync (fresh 7 []))) = [(ID_TIME, [])]
   \<and> time_sync_start (feed small_config (frame 10 []) (requestTimeSync (fresh 7 []))) = 7
   \<and> time_sync_start (feed small_config (frame 10 []) (requestTimeSync (fresh 7 []))) \<noteq> 0
   \<and> sync_time (feed small_config (frame 10 []) (requestTimeSync (fresh 7 [])))
       = sync_time (requestTimeSync (fresh 7 []))"
  by (simp add: frame_def frame_checksum_def eval_rx pb_CHECKSUM smod_nonneg reset_def
      buffer_prefix_def dispatch_time topic_ids completeTimeSync_eq small_config_def
      sample_config_def sample_Time_deserialize_def)

theorem time_sync_completion_witness:
  "state (feed sample_config [0xFF, 0xFF, 0x0A, 0, 8, 0, 5, 0, 0, 0, 0xC0, 0x87, 0x8B, 0x3B]
            (requestTimeSync (fresh 1000 []))) = STATE_CHECKSUM
   \<and> frame 10 [5, 0, 0, 0, 0xC0, 0x87, 0x8B, 0x3B]
       = [0xFF, 0xFF, 0x0A, 0, 8, 0, 5, 0, 0, 0, 0xC0, 0x87, 0x8B, 0x3B, 0xDB]
   \<and> time_sync_end
        (feed sample_config [0xFF, 0xFF, 0x0A, 0, 8, 0, 5, 0, 0, 0, 0xC0, 0x87, 0x8B, 0x3B, 0xDB]
           (requestTimeSync (fresh 1000 []))) = 1010
   \<and> connected
        (feed sample_config [0xFF, 0xFF, 0x0A, 0, 8, 0, 5, 0, 0, 0, 0xC0, 0x87, 0x8B, 0x3B, 0xDB]
           (requestTimeSync (fresh 1000 [])))
   \<and> sync_time
        (feed sample_config [0xFF, 0xFF, 0x0A, 0, 8, 0, 5, 0, 0, 0, 0xC0, 0x87, 0x8B, 0x3B, 0xDB]
           (requestTimeSync (fresh 1000 []))) = \<lparr>sec = 6, nsec = 4000000\<rparr>
   \<and> time_sync_start
        (feed sample_config [0xFF, 0xFF, 0x0A, 0, 8, 0, 5, 0, 0, 0, 0xC0, 0x87, 0x8B, 0x3B, 0xDB]
           (requestTimeSync (fresh 1000 []))) = 0"
proof -
  let ?s = "feed sample_config [0xFF, 0xFF, 0x0A, 0, 8, 0, 5, 0, 0, 0, 0xC0, 0x87, 0x8B, 0x3B]
            (requestTimeSync (fresh 1000 []))"
  have h1: "state ?s = STATE_CHECKSUM"
    by (simp add: eval_rx sample_config_def)
  have h2: "int16 (checksum ?s + uint (0xDB :: byte)) smod 256 = 255"
    by (simp add: eval_rx sample_config_def smod_nonneg)
  have h3: "topic ?s = ID_TIME"
    by (simp add: eval_rx sample_config_def topic_ids)
  have fr: "frame 10 [5, 0, 0, 0, 0xC0, 0x87, 0x8B, 0x3B]
       = [0xFF, 0xFF, 0x0A, 0, 8, 0, 5, 0, 0, 0, 0xC0, 0x87, 0x8B, 0x3B, 0xDB]"
    by (simp add: frame_def frame_checksum_def)
  have bp: "buffer_prefix ?s (kInputSize sample_config)
              = [5, 0, 0, 0, 0xC0, 0x87, 0x8B, 0x3B, 0, 0, 0, 0, 0, 0, 0, 0]"
    by (simp add: eval_rx sample_config_def buffer_prefix_def upt_rec)
  have dec: "Time_deserialize sample_config
               [5, 0, 0, 0, 0xC0, 0x87, 0x8B, 0x3B, 0, 0, 0, 0, 0, 0, 0, 0]
               (kInputSize sample_config) = (8, \<lparr>sec = 5, nsec = 999000000\<rparr>)"
    by (simp add: sample_config_def sample_Time_deserialize_def le32_def)
  have v: "clock (hardware ?s) (ticks (hardware ?s)) = 1010" "time_sync_start ?s = 1000"
    by (simp_all add: eval_rx sample_config_def)
  have off: "unat (((1010 :: ulong) - 1000) div 2) = 5" by simp
  have f: "feed sample_config
             [0xFF, 0xFF, 0x0A, 0, 8, 0, 5, 0, 0, 0, 0xC0, 0x87, 0x8B, 0x3B, 0xDB]
             (requestTimeSync (fresh 1000 []))
             = process_byte sample_config 0xDB ?s"
    by (simp only: feed.simps)
  from time_sync_completion [OF h1 h2 h3, of sample_config]
  show ?thesis
    by (simp only: f fr h1 bp dec v off) (simp add: add_millis_def)
qed


section \<open>Connection timeout\<close>

text \<open>
  Claim C4, amended. In an invocation of \<^verbatim>\<open>spinOnce\<close> on a connected handle whose clock
  reading exceeds \<^verbatim>\<open>time_sync_end_\<close> by more than \<open>kConnectionTimeout\<close>, the handle is
  marked disconnected, the in-flight sync is cleared and the receive state machine is
  reset; the periodic-sync test is a second \<^verbatim>\<open>if\<close>, not an \<^verbatim>\<open>else if\<close>, and is evaluated
  next: a time sync is requested in the same invocation exactly when the reading also
  exceeds \<^verbatim>\<open>time_sync_end_\<close> by more than \<open>kSyncPeriod\<close>. The request takes a second clock
  reading into \<^verbatim>\<open>time_sync_start_\<close> and publishes the empty time message.
\<close>

theorem timeout_then_sync:
  assumes "connected s"
    and "clock (hardware s) (ticks (hardware s)) - time_sync_end s > kConnectionTimeout cfg"
  shows "spinOnce cfg s =
     read_loop cfg 0
       (let s1 = reset ((snd (hw_time s))\<lparr>connected := False, time_sync_start := 0\<rparr>)
        in if clock (hardware s) (ticks (hardware s)) - time_sync_end s > kSyncPeriod cfg
           then requestTimeSync s1 else s1)
   \<and> (let s1 = reset ((snd (hw_time s))\<lparr>connected := False, time_sync_start := 0\<rparr>)
      in \<not> connected (requestTimeSync s1)
         \<and> state (requestTimeSync s1) = STATE_FIRST_FF
         \<and> time_sync_start (requestTimeSync s1) = clock (hardware s) (ticks (hardware s) + 1)
         \<and> node_output (requestTimeSync s1) = node_output s @ [(ID_TIME, empty_time)])"
  using assms
  by (simp add: spinOnce_def hw_time_def check_connection_def requestTimeSync_eq reset_def
      Let_def)

lemma read_loop_no_input:
  "rx (hardware s) = [] \<Longrightarrow> read_loop cfg n s = (n, s)"
  by (subst read_loop.simps) (simp add: hw_read_def)

theorem timeout_then_sync_counterexample:
  "connected (synced 20000 [])
   \<and> clock (hardware (synced 20000 [])) (ticks (hardware (synced 20000 [])))
        - time_sync_end (synced 20000 []) > kConnectionTimeout sample_config
   \<and> \<not> connected (snd (spinOnce sample_config (synced 20000 [])))
   \<and> node_output (snd (spinOnce sample_config (synced 20000 []))) = [(ID_TIME, empty_time)]
   \<and> time_sync_start (snd (spinOnce sample_config (synced 20000 []))) = 20010"
  by (simp add: spinOnce_def hw_time_def check_connection_def requestTimeSync_eq reset_def
      Let_def synced_def fresh_def NodeHandle_ctor_def port_at_def zero_storage_def
      sample_config_def read_loop_no_input)

theorem timeout_then_sync_witness:
  "connected (synced 20000 [])
   \<and> clock (hardware (synced 20000 [])) (ticks (hardware (synced 20000 [])))
        - time_sync_end (synced 20000 []) > kConnectionTimeout sample_config
   \<and> spinOnce sample_config (synced 20000 []) =
       (0, requestTimeSync
             (reset ((snd (hw_time (synced 20000 [])))
                     \<lparr>connected := False, time_sync_start := 0\<rparr>)))
   \<and> time_sync_start
        (requestTimeSync
           (reset ((snd (hw_time (synced 20000 [])))
                   \<lparr>connected := False, time_sync_start := 0\<rparr>))) = 20010"
proof -
  have c: "connected (synced 20000 [])"
    by (simp add: synced_def)
  have t: "clock (hardware (synced 20000 [])) (ticks (hardware (synced 20000 [])))
        - time_sync_end (synced 20000 []) > kConnectionTimeout sample_config"
    by (simp add: synced_def fresh_def NodeHandle_ctor_def port_at_def sample_config_def)
  have p: "clock (hardware (synced 20000 [])) (ticks (hardware (synced 20000 [])))
        - time_sync_end (synced 20000 []) > kSyncPeriod sample_config"
    by (simp add: synced_def fresh_def NodeHandle_ctor_def port_at_def sample_config_def)
  have v: "clock (hardware (synced 20000 [])) (ticks (hardware (synced 20000 [])) + 1) = 20010"
    by (simp add: synced_def fresh_def NodeHandle_ctor_def port_at_def)
  have r: "rx (hardware (requestTimeSync
             (reset ((snd (hw_time (synced 20000 [])))
                     \<lparr>connected := False, time_sync_start := 0\<rparr>)))) = []"
    by (simp add: requestTimeSync_eq reset_def hw_time_def synced_def fresh_def
        NodeHandle_ctor_def port_at_def)
  from timeout_then_sync [OF c t] c t
  show ?thesis
    by (simp only: Let_def p if_True v read_loop_no_input [OF r])
qed


section \<open>Error counters\<close>

text \<open>
  Claim C3. The claim is evaluated on the frame of scenario S3, the subscriber frame
  \<^verbatim>\<open>FF FF 64 00 01 00 00 9A\<close> with its checksum byte changed to \<^verbatim>\<open>9B\<close>, received by a
  handle with a subscriber in slot 0. The machine is back in \<^verbatim>\<open>STATE_FIRST_FF\<close>, nothing
  is dispatched and no receiver is called, but the checksum-error counter is still 0:
  \<^verbatim>\<open>++checksum_error_count_\<close> is the last \<^verbatim>\<open>else\<close> of the chain over \<^verbatim>\<open>topic_\<close>, inside
  the branch of a passed checksum test, so it counts the frames with a valid checksum
  and an unknown topic (the second statement), not the checksum errors.
\<close>

theorem checksum_error_not_counted:
  "state (feed sample_config [0xFF, 0xFF, 0x64, 0, 1, 0, 0, 0x9B] (registered 0 []))
     = STATE_FIRST_FF
   \<and> dispatched (feed sample_config [0xFF, 0xFF, 0x64, 0, 1, 0, 0, 0x9B] (registered 0 [])) = []
   \<and> delivered (feed sample_config [0xFF, 0xFF, 0x64, 0, 1, 0, 0, 0x9B] (registered 0 [])) = []
   \<and> checksum_error_count
        (feed sample_config [0xFF, 0xFF, 0x64, 0, 1, 0, 0, 0x9B] (registered 0 [])) = 0
   \<and> checksum_error_count (registered 0 []) = 0
   \<and> checksum_error_count
        (feed sample_config (frame 50 []) (registered 0 [])) = 1"
  by (simp add: registered_eq eval_rx pb_CHECKSUM smod_nonneg reset_def sample_config_def
      frame_def frame_checksum_def dispatch_def topic_ids)

lemma checksum_mismatch_resets:
  "state s = STATE_CHECKSUM \<Longrightarrow> int16 (checksum s + uint b) smod 256 \<noteq> 255 \<Longrightarrow>
   process_byte cfg b s = reset s"
  by (simp add: pb_CHECKSUM reset_def)

lemma subscriber_frame_delivered:
  "delivered (feed sample_config [0xFF, 0xFF, 0x64, 0, 1, 0, 0, 0x9A] (registered 0 []))
     = [(0, [0])]
   \<and> malformed_message_error_count
        (feed sample_config [0xFF, 0xFF, 0x64, 0, 1, 0, 0, 0x9A] (registered 0 [])) = 0"
  by (simp add: registered_eq eval_rx pb_CHECKSUM smod_nonneg reset_def sample_config_def
      dispatch_def topic_ids buffer_prefix_def bar_subscriber_def)

subsection \<open>The counters, one byte at a time\<close>

text \<open>
  A byte leaves each counter as it is or increments it; an increment raises a counter
  that is below \<^verbatim>\<open>INT_MAX\<close> and takes one that is at \<^verbatim>\<open>INT_MAX\<close> to \<^verbatim>\<open>INT_MIN\<close>.
\<close>

lemma int16_succ_le: "c < 32767 \<Longrightarrow> c \<le> int16 (c + 1)"
proof (cases "- 32768 \<le> c")
  case True
  assume "c < 32767"
  with True have "int16 (c + 1) = c + 1" by (intro int16_id) simp_all
  then show ?thesis by simp
next
  case False
  then show ?thesis using int16_range [of "c + 1"] by linarith
qed

lemma counters_le_refl [simp]: "counters_le s s"
  by (simp add: counters_le_def)

lemma dispatch_counters:
  "malformed_message_error_count s < 32767 \<Longrightarrow> checksum_error_count s < 32767 \<Longrightarrow>
   counters_le s (dispatch cfg s)"
  by (simp add: counters_le_def dispatch_def negotiateTopics_eq requestTimeSync_eq
      completeTimeSync_eq Let_def int16_succ_le split: prod.splits option.splits)

lemma process_byte_counters:
  assumes "invalid_size_error_count s < 32767" and "checksum_error_count s < 32767"
    and "state_error_count s < 32767" and "malformed_message_error_count s < 32767"
  shows "counters_le s (process_byte cfg b s)"
proof (cases "state s")
  case STATE_CHECKSUM
  have "counters_le s' (reset (dispatch cfg s'))"
    if "malformed_message_error_count s' < 32767" "checksum_error_count s' < 32767" for s'
    using dispatch_counters [OF that, of cfg] by (simp add: counters_le_def reset_def)
  from this [of "s\<lparr>checksum := int16 (checksum s + uint b),
                    dispatched :=
                      dispatched s @ [(topic s, buffer_prefix s (nat (data_index s)))]\<rparr>"]
  show ?thesis
    using STATE_CHECKSUM assms by (simp add: pb_CHECKSUM counters_le_def reset_def)
qed (use assms in \<open>simp_all add: counters_le_def pb_FIRST_FF pb_SECOND_FF pb_TOPIC_LOW
      pb_TOPIC_HIGH pb_SIZE_LOW pb_SIZE_HIGH pb_MESSAGE reset_def Let_def int16_succ_le\<close>)

lemma state_error_count_wraps:
  "state s = STATE_FIRST_FF \<Longrightarrow> b \<noteq> 0xFF \<Longrightarrow> state_error_count s = 32767 \<Longrightarrow>
   state_error_count (process_byte cfg b s) = - 32768"
  by (simp add: pb_FIRST_FF reset_def int16_def)

lemma registerReceiver_counters: "counters_le s (snd (registerReceiver cfg r s))"
  by (simp add: registerReceiver_def counters_le_def)

lemma advertise_counters: "counters_le s (snd (advertise cfg p s))"
proof -
  have "counters_le s (snd (advertise_loop cfg p i s))" for i
  proof (induction cfg p i s rule: advertise_loop.induct)
    case (1 cfg publisher i s)
    then show ?case
      by (subst advertise_loop.simps) (simp add: counters_le_def)
  qed
  then show ?thesis by (simp add: advertise_def)
qed

lemma log_counters: "counters_le s (log level msg s)"
  by (simp add: log_def publish_def counters_le_def)

lemma ctor_counters:
  "invalid_size_error_count (NodeHandle_ctor hw raw) = 0
   \<and> checksum_error_count (NodeHandle_ctor hw raw) = 0
   \<and> malformed_message_error_count (NodeHandle_ctor hw raw) = 0
   \<and> state_error_count (NodeHandle_ctor hw raw) = state_error_count raw"
  by (simp add: NodeHandle_ctor_def)

text \<open>
  Claim C6. The initialiser list of the constructor sets three of the four counters to 0
  and does not name \<^verbatim>\<open>state_error_count_\<close>, which keeps what the storage held: for an
  object built in storage that held \<open>- 1\<close> there, the framing-state counter is negative
  after construction.
\<close>

theorem state_error_count_uninitialised:
  "state_error_count (NodeHandle_ctor (port_at 0 []) stack_storage) = - 1
   \<and> state_error_count (NodeHandle_ctor (port_at 0 []) stack_storage) < 0
   \<and> invalid_size_error_count (NodeHandle_ctor (port_at 0 []) stack_storage) = 0
   \<and> checksum_error_count (NodeHandle_ctor (port_at 0 []) stack_storage) = 0
   \<and> malformed_message_error_count (NodeHandle_ctor (port_at 0 []) stack_storage) = 0"
  by (simp add: NodeHandle_ctor_def stack_storage_def zero_storage_def)


section \<open>Parameter fetch\<close>

lemma copy_loop_length [simp]: "length (copy_loop i len src param) = length param"
proof (induction i len src param rule: copy_loop.induct)
  case (1 i len src param)
  then show ?case by (subst copy_loop.simps) simp
qed

lemma copy_loop_nth:
  "0 \<le> i \<Longrightarrow> k < length param \<Longrightarrow>
   copy_loop i len src param ! k =
     (if nat i \<le> k \<and> int k < len then src ! k else param ! k)"
proof (induction i len src param rule: copy_loop.induct)
  case (1 i len src param)
  show ?case
  proof (cases "i < len")
    case False
    with "1.prems" show ?thesis by (subst copy_loop.simps) auto
  next
    case True
    have "copy_loop (i + 1) len src (param[nat i := src ! nat i]) ! k =
        (if nat (i + 1) \<le> k \<and> int k < len then src ! k
         else (param[nat i := src ! nat i]) ! k)"
      using "1.prems" by (intro "1.IH" [OF True]) simp_all
    with True "1.prems" show ?thesis
      by (subst copy_loop.simps) (auto simp: nth_list_update)
  qed
qed

lemma copy_loop_all:
  assumes "len = int (length src)" and "nat len \<le> length param"
  shows "copy_loop 0 len src param = src @ drop (nat len) param"
proof (rule nth_equalityI)
  show "length (copy_loop 0 len src param) = length (src @ drop (nat len) param)"
    using assms by simp
next
  fix k
  assume "k < length (copy_loop 0 len src param)"
  then have k: "k < length param" by simp
  show "copy_loop 0 len src param ! k = (src @ drop (nat len) param) ! k"
    using assms k by (simp add: copy_loop_nth nth_append)
qed


lemma requestParam_loop_done:
  "param_received s \<Longrightarrow> requestParam_loop cfg start_time time_out s = Some (True, s)"
  by (subst requestParam_loop.simps) simp

lemma requestParam_loop_step:
  "\<not> param_received s \<Longrightarrow>
   requestParam_loop cfg start_time time_out s =
     (case hw_time (snd (spinOnce cfg s)) of
        (t, s2) \<Rightarrow>
          if t - start_time > word_of_int time_out then Some (False, s2)
          else requestParam_loop cfg start_time time_out s2)"
  by (subst requestParam_loop.simps) simp

subsection \<open>requestParam returns when the clock passes the time-out\<close>

lemma dispatch_clock:
  "clock (hardware (dispatch cfg s)) = clock (hardware s)
   \<and> ticks (hardware s) \<le> ticks (hardware (dispatch cfg s))"
  by (simp add: dispatch_def negotiateTopics_eq requestTimeSync_eq completeTimeSync_eq Let_def
      split: prod.splits option.splits)

lemma process_byte_clock:
  "clock (hardware (process_byte cfg b s)) = clock (hardware s)
   \<and> ticks (hardware s) \<le> ticks (hardware (process_byte cfg b s))"
proof (cases "state s")
  case STATE_CHECKSUM
  then show ?thesis
    using dispatch_clock
      [of cfg "s\<lparr>checksum := int16 (checksum s + uint b),
                  dispatched :=
                    dispatched s @ [(topic s, buffer_prefix s (nat (data_index s)))]\<rparr>"]
    by (simp add: pb_CHECKSUM reset_def)
qed (simp_all add: pb_FIRST_FF pb_SECOND_FF pb_TOPIC_LOW pb_TOPIC_HIGH
      pb_SIZE_LOW pb_SIZE_HIGH pb_MESSAGE reset_def Let_def)

lemma spinOnce_clock:
  "clock (hardware (snd (spinOnce cfg s))) = clock (hardware s)
   \<and> ticks (hardware s) < ticks (hardware (snd (spinOnce cfg s)))"
proof -
  obtain t s1 where ht: "hw_time s = (t, s1)" by (cases "hw_time s")
  let ?I = "\<lambda>s' :: NodeHandle. clock (hardware s') = clock (hardware s)
                \<and> ticks (hardware s) < ticks (hardware s')"
  have "?I (check_connection cfg t s1)"
    using ht
    by (auto simp: check_connection_def requestTimeSync_eq reset_def hw_time_def Let_def)
  then have "?I (snd (read_loop cfg 0 (check_connection cfg t s1)))"
  proof (rule read_loop_invariant [where I = ?I, rotated 2])
    fix s' :: NodeHandle and r
    assume "?I s'"
    then show "?I (s'\<lparr>hardware := (hardware s')\<lparr>rx := r\<rparr>\<rparr>)"
      by simp
  next
    fix b and s' :: NodeHandle
    assume "?I s'"
    then show "?I (process_byte cfg b s')"
      using process_byte_clock [of cfg b s'] by simp
  qed
  then show ?thesis by (simp add: spinOnce_def ht)
qed

lemma requestParam_loop_returns:
  assumes "\<And>n. N \<le> n \<Longrightarrow> word_of_int time_out < clock (hardware s) n - start_time"
  shows "requestParam_loop cfg start_time time_out s \<noteq> None"
  using assms
proof (induction "N - ticks (hardware s)" arbitrary: s rule: less_induct)
  case less
  show ?case
  proof (cases "param_received s")
    case True
    then show ?thesis by (simp add: requestParam_loop_done)
  next
    case False
    let ?s1 = "snd (spinOnce cfg s)"
    let ?s2 = "?s1\<lparr>hardware := (hardware ?s1)\<lparr>ticks := Suc (ticks (hardware ?s1))\<rparr>\<rparr>"
    have ht: "hw_time ?s1 = (clock (hardware s) (ticks (hardware ?s1)), ?s2)"
      using spinOnce_clock [of cfg s] by (simp add: hw_time_def Let_def)
    have lt: "ticks (hardware s) < ticks (hardware ?s1)"
      using spinOnce_clock [of cfg s] by simp
    show ?thesis
    proof (cases "word_of_int time_out < clock (hardware s) (ticks (hardware ?s1)) - start_time")
      case True
      with False ht show ?thesis by (simp add: requestParam_loop_step)
    next
      case nt: False
      then have "\<not> N \<le> ticks (hardware ?s1)"
        using less.prems by blast
      then have m: "N - ticks (hardware ?s2) < N - ticks (hardware s)"
        using lt by simp
      have c: "clock (hardware ?s2) = clock (hardware s)"
        using spinOnce_clock [of cfg s] by simp
      have "requestParam_loop cfg start_time time_out ?s2 \<noteq> None"
      proof (rule less.hyps [OF m])
        fix n
        assume "N \<le> n"
        then show "word_of_int time_out < clock (hardware ?s2) n - start_time"
          using less.prems by (simp only: c)
      qed
      with False ht nt show ?thesis by (simp add: requestParam_loop_step)
    qed
  qed
qed

lemma requestParam_returns:
  assumes "\<And>n. N \<le> n \<Longrightarrow>
             word_of_int time_out
               < clock (hardware s) n - clock (hardware s) (ticks (hardware s))"
  shows "requestParam cfg name time_out s \<noteq> None"
proof -
  let ?s3 = "s\<lparr>param_received := False,
               node_output := node_output s
                 @ [(ID_PARAMETER_REQUEST, RequestParamRequestMsg name)],
               hardware := (hardware s)\<lparr>ticks := Suc (ticks (hardware s))\<rparr>\<rparr>"
  have "requestParam_loop cfg (clock (hardware s) (ticks (hardware s))) time_out ?s3 \<noteq> None"
  proof (rule requestParam_loop_returns [where N = N])
    fix n
    assume "N \<le> n"
    then show "word_of_int time_out
                 < clock (hardware ?s3) n - clock (hardware s) (ticks (hardware s))"
      using assms by simp
  qed
  then show ?thesis
    by (simp add: requestParam_def hw_time_def publish_def Let_def)
qed

text \<open>
  Claim C9. Each typed getter returns when \<^verbatim>\<open>requestParam\<close> does. The caller's array
  holds at least \<open>len\<close> elements. When the request succeeded and \<open>len\<close> is the length
  of the received array, the getter returns true and the first \<open>len\<close> elements of the
  caller's array are the received ones, the rest as before; on a time-out or a length
  mismatch it returns false and the caller's array is as before.
\<close>

theorem getParam_copies:
  assumes "nat len \<le> length param_i" and "nat len \<le> length param_f"
    and "nat len \<le> length param_s"
  shows "getParam_int cfg name param_i len s =
           map_option
             (\<lambda>(ok, s1).
                if ok \<and> len = ints_length (req_param_resp s1)
                then (True, ints (req_param_resp s1) @ drop (nat len) param_i, s1)
                else (False, param_i, s1))
             (requestParam cfg name (kDefaultTimeOut cfg) s)
     \<and> getParam_float cfg name param_f len s =
           map_option
             (\<lambda>(ok, s1).
                if ok \<and> len = floats_length (req_param_resp s1)
                then (True, floats (req_param_resp s1) @ drop (nat len) param_f, s1)
                else (False, param_f, s1))
             (requestParam cfg name (kDefaultTimeOut cfg) s)
     \<and> getParam_string cfg name param_s len s =
           map_option
             (\<lambda>(ok, s1).
                if ok \<and> len = strings_length (req_param_resp s1)
                then (True, strings (req_param_resp s1) @ drop (nat len) param_s, s1)
                else (False, param_s, s1))
             (requestParam cfg name (kDefaultTimeOut cfg) s)"
proof (cases "requestParam cfg name (kDefaultTimeOut cfg) s")
  case None
  then show ?thesis
    by (simp add: getParam_int_def getParam_float_def getParam_string_def)
next
  case (Some r)
  obtain ok s1 where r: "r = (ok, s1)" by (cases r)
  have i: "copy_loop 0 len (ints (req_param_resp s1)) param_i
             = ints (req_param_resp s1) @ drop (nat len) param_i"
    if "len = ints_length (req_param_resp s1)"
    using that assms(1) by (intro copy_loop_all) (simp_all add: ints_length_def)
  have f: "copy_loop 0 len (floats (req_param_resp s1)) param_f
             = floats (req_param_resp s1) @ drop (nat len) param_f"
    if "len = floats_length (req_param_resp s1)"
    using that assms(2) by (intro copy_loop_all) (simp_all add: floats_length_def)
  have st: "copy_loop 0 len (strings (req_param_resp s1)) param_s
             = strings (req_param_resp s1) @ drop (nat len) param_s"
    if "len = strings_length (req_param_resp s1)"
    using that assms(3) by (intro copy_loop_all) (simp_all add: strings_length_def)
  show ?thesis
    using i f st
    by (simp add: getParam_int_def getParam_float_def getParam_string_def Some r)
qed



lemmas eval_spin =
  spinOnce_def hw_time_def check_connection_def read_loop.simps hw_read_def eval_rx
  pb_CHECKSUM smod_nonneg reset_def dispatch_def topic_ids buffer_prefix_def
  sample_config_def publish_def

lemma response_frame: "frame 6 [2, 7, 9] = [0xFF, 0xFF, 6, 0, 3, 0, 2, 7, 9, 0xE4]"
  by (simp add: frame_def frame_checksum_def)

lemma request_answered:
  "\<exists>s1. requestParam sample_config ''gain'' (kDefaultTimeOut sample_config)
           (fresh 0 (map Some [0xFF, 0xFF, 6, 0, 3, 0, 2, 7, 9, 0xE4])) = Some (True, s1)
        \<and> req_param_resp s1 = \<lparr>ints = [7, 9], floats = [], strings = []\<rparr>"
  by (simp add: requestParam_def requestParam_loop_done requestParam_loop_step eval_spin
      sample_Response_deserialize_def upt_rec)

lemma request_timed_out:
  "\<exists>s1. requestParam (sample_config\<lparr>kDefaultTimeOut := 15\<rparr>) ''gain''
           (kDefaultTimeOut (sample_config\<lparr>kDefaultTimeOut := 15\<rparr>)) (fresh 0 [])
         = Some (False, s1)"
  by (simp add: requestParam_def requestParam_loop_done requestParam_loop_step eval_spin)


theorem getParam_copies_witness:
  "map_option (\<lambda>(ok, p, s1). (ok, p))
     (getParam_int sample_config ''gain'' [0, 0, 5] 2
        (fresh 0 (map Some [0xFF, 0xFF, 6, 0, 3, 0, 2, 7, 9, 0xE4]))) = Some (True, [7, 9, 5])
   \<and> map_option (\<lambda>(ok, p, s1). (ok, p))
     (getParam_int sample_config ''gain'' [0, 0, 5] 3
        (fresh 0 (map Some [0xFF, 0xFF, 6, 0, 3, 0, 2, 7, 9, 0xE4]))) = Some (False, [0, 0, 5])
   \<and> map_option (\<lambda>(ok, p, s1). (ok, p))
     (getParam_float sample_config ''gain'' [1, 2, 3] 0
        (fresh 0 (map Some [0xFF, 0xFF, 6, 0, 3, 0, 2, 7, 9, 0xE4]))) = Some (True, [1, 2, 3])
   \<and> map_option (\<lambda>(ok, p, s1). (ok, p))
     (getParam_int (sample_config\<lparr>kDefaultTimeOut := 15\<rparr>) ''gain'' [0, 0, 5] 2
        (fresh 0 [])) = Some (False, [0, 0, 5])"
proof -
  let ?h = "fresh 0 (map Some [0xFF, 0xFF, 6, 0, 3, 0, 2, 7, 9, 0xE4])"
  let ?c = "sample_config\<lparr>kDefaultTimeOut := 15\<rparr>"
  obtain s1 where a: "requestParam sample_config ''gain'' (kDefaultTimeOut sample_config) ?h
                        = Some (True, s1)"
    and r: "req_param_resp s1 = \<lparr>ints = [7, 9], floats = [], strings = []\<rparr>"
    using request_answered by blast
  obtain s2 where b: "requestParam ?c ''gain'' (kDefaultTimeOut ?c) (fresh 0 [])
                        = Some (False, s2)"
    using request_timed_out by blast
  have l: "nat 2 \<le> length [0, 0, 5 :: int]" "nat 2 \<le> length [1, 2, 3 :: 32 word]"
    "nat 2 \<le> length [''a'', ''b'']"
    "nat 3 \<le> length [0, 0, 5 :: int]" "nat 3 \<le> length [1, 2, 3 :: 32 word]"
    "nat 3 \<le> length [''a'', ''b'', ''c'']"
    "nat 0 \<le> length [0, 0, 5 :: int]" "nat 0 \<le> length [1, 2, 3 :: 32 word]"
    "nat 0 \<le> length [''a'', ''b'']"
    by simp_all
  note e1 = getParam_copies [OF l(1) l(2) l(3), of sample_config "''gain''" ?h, THEN conjunct1]
  note e2 = getParam_copies [OF l(4) l(5) l(6), of sample_config "''gain''" ?h, THEN conjunct1]
  note e3 = getParam_copies [OF l(7) l(8) l(9), of sample_config "''gain''" ?h,
      THEN conjunct2, THEN conjunct1]
  note e4 = getParam_copies [OF l(1) l(2) l(3), of ?c "''gain''" "fresh 0 []", THEN conjunct1]
  show ?thesis
    by (simp only: e1 e2 e3 e4 a b) (simp add: r ints_length_def floats_length_def)
qed

end
